theory Spec2Isabelle
  imports Complex_Main "HOL-Library.Multiset"
begin

section \<open>Data model of the global layer scheduler\<close>

text \<open>
  The scheduler lives in \<^verbatim>\<open>src/optimizers/layer_order_optimizer.cpp\<close>. It reads parts,
  step pairs, steps and planes, and it builds global layers. Those collaborator classes are
  declared elsewhere, so the parts of them that the scheduler touches are written down here.

  A \<^verbatim>\<open>QUuid\<close> is modelled as a natural number; the default-constructed \<^verbatim>\<open>QUuid()\<close> is the
  null id \<open>0\<close>. Distances are C++ doubles; they are idealised as real numbers. Step counts
  and cursors are C++ \<^verbatim>\<open>int\<close>s which start at zero and are only ever incremented; they are
  modelled as natural numbers.
\<close>

type_synonym quuid = nat

definition QUuid :: quuid where
  "QUuid = 0"

definition isNull :: "quuid \<Rightarrow> bool" where
  "isNull u \<longleftrightarrow> u = 0"

type_synonym distance = real

text \<open>
  Modelled from the spec: the \<^verbatim>\<open>Plane\<close> class and \<^verbatim>\<open>MathUtils::linePlaneIntersection\<close>,
  which are defined in other files of the repository. The source's note on the by-height
  policy says that all parts are sliced with the same plane angle and that the plane does
  not rotate. Under that assumption a plane is determined by its signed distance from the
  origin along the stacking direction, and that number represents the plane here; the
  rotation of the stacking direction by the configured pitch, yaw and roll then plays no
  role. Shifting along the normal adds to the number, the distance of the intersection of
  the stacking axis through the origin with the plane is the number itself, and equality
  with tolerance compares the two distances, the boundary being inclusive.
\<close>

type_synonym plane = real

text \<open>Modelled from the spec: \<^verbatim>\<open>Plane::shiftAlongNormal\<close>, the shift of a plane along its
  normal by a distance.\<close>

definition shiftAlongNormal :: "plane \<Rightarrow> distance \<Rightarrow> plane" where
  "shiftAlongNormal pl d = pl + d"

text \<open>Modelled from the spec: the signed distance from the origin of the point where the
  stacking axis through the origin meets the plane, which the source computes as
  \<^verbatim>\<open>MathUtils::linePlaneIntersection(Point(0,0,0), slicing_plane, layer_plane).distance()\<close>.\<close>

definition linePlaneIntersection_distance :: "plane \<Rightarrow> distance" where
  "linePlaneIntersection_distance pl = pl"

text \<open>Modelled from the spec: \<^verbatim>\<open>Plane::isEqual\<close>, the equality of two planes up to a
  tolerance; the two distances may differ by at most the tolerance.\<close>

definition isEqual :: "plane \<Rightarrow> plane \<Rightarrow> distance \<Rightarrow> bool" where
  "isEqual pl rhs epsilon \<longleftrightarrow> \<bar>pl - rhs\<bar> \<le> epsilon"

text \<open>
  A \<^verbatim>\<open>Step\<close> exposes its slicing plane and, through its settings, its layer height.
  A \<^verbatim>\<open>StepPair\<close> carries the step as \<^verbatim>\<open>printing_layer\<close>.
\<close>

record step =
  getSlicingPlane :: plane
  kLayerHeight :: distance

record step_pair =
  printing_layer :: step

text \<open>
  Modelled from the spec: the \<^verbatim>\<open>Part\<close> class. A part has an id, an ordered sequence of
  step pairs addressed by index, and a list of dirty step pairs.
\<close>

record part =
  getId :: quuid
  m_step_pairs :: "step_pair list"
  getDirtyStepPairs :: "step_pair list"

text \<open>Modelled from the spec: \<^verbatim>\<open>Part::countStepPairs\<close> and \<^verbatim>\<open>Part::getStepPair\<close>, the count
  of the step pairs of a part and the step pair at an index.\<close>

definition countStepPairs :: "part \<Rightarrow> nat" where
  "countStepPairs p = length (m_step_pairs p)"

text \<open>Every call of \<open>getStepPair\<close> in the scheduler is guarded by a comparison with
  \<open>countStepPairs\<close>, so the index is in range wherever the model reads it.\<close>

definition getStepPair :: "part \<Rightarrow> nat \<Rightarrow> step_pair" where
  "getStepPair p i = m_step_pairs p ! i"

datatype error = PreconditionViolation | AssertionFailure

text \<open>
  Modelled from the spec: the \<^verbatim>\<open>GlobalLayer\<close> class. It owns a sequence index and a mapping
  from part id to step pair. The mapping is kept as the list of its entries in insertion
  order. \<open>addStepPair\<close> fails with a precondition violation if the part already has an
  entry in the layer.
\<close>

record global_layer =
  layer_index :: nat
  getStepPairs :: "(quuid \<times> step_pair) list"

text \<open>Modelled from the spec: the constructor of a global layer with a sequence index and
  no entries.\<close>

definition GlobalLayer_create :: "nat \<Rightarrow> global_layer" where
  "GlobalLayer_create n = \<lparr>layer_index = n, getStepPairs = []\<rparr>"

text \<open>Modelled from the spec: \<^verbatim>\<open>GlobalLayer::addStepPair\<close>, which fails if the part already
  has an entry in this layer and otherwise adds the entry.\<close>

definition addStepPair :: "global_layer \<Rightarrow> quuid \<Rightarrow> step_pair \<Rightarrow> error + global_layer" where
  "addStepPair g part_id sp =
     (if map_of (getStepPairs g) part_id \<noteq> None then Inl PreconditionViolation
      else Inr (g\<lparr>getStepPairs := getStepPairs g @ [(part_id, sp)]\<rparr>))"

text \<open>
  The ordering policy is a C++ enumeration read from the settings. The scheduler has a
  branch for a value that is none of the three policies, so the model has such values
  too.
\<close>

datatype LayerOrdering = kByHeight | kByLayerNumber | kByPart | kUnrecognized nat

record settings =
  kLayerOrdering :: LayerOrdering
  kLayerGroupingTolerance :: distance

text \<open>
  \<^verbatim>\<open>Q_ASSERT\<close> is Qt's assertion macro: it aborts when its condition is false, and it is
  compiled to nothing when \<^verbatim>\<open>QT_NO_DEBUG\<close> is defined. The build mode is a parameter.
\<close>

definition Q_ASSERT :: "bool \<Rightarrow> bool \<Rightarrow> error + unit" where
  "Q_ASSERT qt_no_debug cond = (if qt_no_debug \<or> cond then Inr () else Inl AssertionFailure)"

section \<open>Incremental mode: populateStep\<close>

text \<open>The inner loop over the dirty step pairs of one part.\<close>

fun add_dirty_step_groups :: "quuid \<Rightarrow> step_pair list \<Rightarrow> global_layer \<Rightarrow> error + global_layer" where
  "add_dirty_step_groups part_id [] g = Inr g"
| "add_dirty_step_groups part_id (step_group # rest) g =
     (case addStepPair g part_id step_group of
        Inl e \<Rightarrow> Inl e
      | Inr g' \<Rightarrow> add_dirty_step_groups part_id rest g')"

text \<open>The outer loop over the parts.\<close>

fun populateStep_parts :: "part list \<Rightarrow> global_layer \<Rightarrow> error + global_layer" where
  "populateStep_parts [] g = Inr g"
| "populateStep_parts (p # ps) g =
     (case add_dirty_step_groups (getId p) (getDirtyStepPairs p) g of
        Inl e \<Rightarrow> Inl e
      | Inr g' \<Rightarrow> populateStep_parts ps g')"

definition populateStep :: "part list \<Rightarrow> error + global_layer" where
  "populateStep build_parts = populateStep_parts build_parts (GlobalLayer_create 0)"

section \<open>Batch mode: the by-layer-number policy\<close>

definition max_steps_by_layer_number :: "part list \<Rightarrow> nat" where
  "max_steps_by_layer_number build_parts =
     foldl (\<lambda>max_steps p. max max_steps (countStepPairs p)) 0 build_parts"

text \<open>The loop over the parts that fills the layer of one step number.\<close>

fun add_parts_at_step :: "nat \<Rightarrow> part list \<Rightarrow> global_layer \<Rightarrow> error + global_layer" where
  "add_parts_at_step s [] g = Inr g"
| "add_parts_at_step s (p # ps) g =
     (if s < countStepPairs p
      then (case addStepPair g (getId p) (getStepPair p s) of
              Inl e \<Rightarrow> Inl e
            | Inr g' \<Rightarrow> add_parts_at_step s ps g')
      else add_parts_at_step s ps g)"

text \<open>The loop \<^verbatim>\<open>for (int step = 0; step < max_steps; ++step)\<close>.\<close>

function by_layer_number_loop ::
  "nat \<Rightarrow> nat \<Rightarrow> part list \<Rightarrow> global_layer list \<Rightarrow> error + global_layer list" where
  "by_layer_number_loop s max_steps build_parts global_layers =
     (if s < max_steps
      then (case add_parts_at_step s build_parts (GlobalLayer_create s) of
              Inl e \<Rightarrow> Inl e
            | Inr new_global_layer \<Rightarrow>
                by_layer_number_loop (Suc s) max_steps build_parts
                  (global_layers @ [new_global_layer]))
      else Inr global_layers)"
  by pat_completeness auto
termination
  by (relation "measure (\<lambda>(s, max_steps, build_parts, global_layers). max_steps - s)") auto

declare by_layer_number_loop.simps [simp del]

definition by_layer_number :: "part list \<Rightarrow> error + global_layer list" where
  "by_layer_number build_parts =
     by_layer_number_loop 0 (max_steps_by_layer_number build_parts) build_parts []"

section \<open>Batch mode: the by-part policy\<close>

text \<open>The inner loop \<^verbatim>\<open>for (int s = 0; s < max_steps; ++s)\<close> over the steps of one part;
  it threads the running number of global steps and the list of layers.\<close>

function by_part_steps ::
  "part \<Rightarrow> nat \<Rightarrow> nat \<times> global_layer list \<Rightarrow> error + (nat \<times> global_layer list)" where
  "by_part_steps p s (num_g_steps, global_layers) =
     (if s < countStepPairs p
      then (case addStepPair (GlobalLayer_create num_g_steps) (getId p) (getStepPair p s) of
              Inl e \<Rightarrow> Inl e
            | Inr new_global_layer \<Rightarrow>
                by_part_steps p (Suc s) (Suc num_g_steps, global_layers @ [new_global_layer]))
      else Inr (num_g_steps, global_layers))"
  by pat_completeness auto
termination
  by (relation "measure (\<lambda>(p, s, st). countStepPairs p - s)") auto

declare by_part_steps.simps [simp del]

fun by_part_parts ::
  "part list \<Rightarrow> nat \<times> global_layer list \<Rightarrow> error + (nat \<times> global_layer list)" where
  "by_part_parts [] st = Inr st"
| "by_part_parts (p # ps) st =
     (case by_part_steps p 0 st of
        Inl e \<Rightarrow> Inl e
      | Inr st' \<Rightarrow> by_part_parts ps st')"

definition by_part :: "part list \<Rightarrow> error + global_layer list" where
  "by_part build_parts =
     (case by_part_parts build_parts (0, []) of
        Inl e \<Rightarrow> Inl e
      | Inr (num_g_steps, global_layers) \<Rightarrow> Inr global_layers)"

section \<open>Batch mode: the by-height policy\<close>

text \<open>The plane of a step pair's printing layer, shifted along its normal by half the
  layer height.\<close>

definition shifted_layer_plane :: "step_pair \<Rightarrow> plane" where
  "shifted_layer_plane sp =
     shiftAlongNormal (getSlicingPlane (printing_layer sp))
       (kLayerHeight (printing_layer sp) / 2)"

text \<open>
  The first inner loop: the search for the minimum plane. Its state is the triple
  \<^verbatim>\<open>part_with_min_plane\<close>, \<^verbatim>\<open>min_plane\<close>, \<^verbatim>\<open>min_dist\<close>. The cursor map \<^verbatim>\<open>current_layer\<close> is a
  function from ids to step numbers; it is zero where nothing was stored, as the map's
  index operator gives. The loop body starts the search with the null id and with a
  default plane and distance, which are never read before the first candidate has
  overwritten them.
\<close>

fun find_min_plane ::
  "(quuid \<Rightarrow> nat) \<Rightarrow> part list \<Rightarrow> quuid \<times> plane \<times> distance \<Rightarrow> quuid \<times> plane \<times> distance" where
  "find_min_plane current_layer [] st = st"
| "find_min_plane current_layer (p # ps) (part_with_min_plane, min_plane, min_dist) =
     (if current_layer (getId p) \<ge> countStepPairs p
      then find_min_plane current_layer ps (part_with_min_plane, min_plane, min_dist)
      else
        (let layer_plane = shifted_layer_plane (getStepPair p (current_layer (getId p)));
             layer_dist = linePlaneIntersection_distance layer_plane
         in if isNull part_with_min_plane \<or> layer_dist < min_dist
            then find_min_plane current_layer ps (getId p, layer_plane, layer_dist)
            else find_min_plane current_layer ps (part_with_min_plane, min_plane, min_dist)))"

text \<open>
  The second inner loop: the grouping pass. It threads the cursor map and the new global
  layer.
\<close>

fun group_with_min_plane ::
  "distance \<Rightarrow> plane \<Rightarrow> part list \<Rightarrow> (quuid \<Rightarrow> nat) \<times> global_layer \<Rightarrow>
   error + ((quuid \<Rightarrow> nat) \<times> global_layer)" where
  "group_with_min_plane tol min_plane [] st = Inr st"
| "group_with_min_plane tol min_plane (p # ps) (current_layer, g) =
     (if current_layer (getId p) \<ge> countStepPairs p
      then group_with_min_plane tol min_plane ps (current_layer, g)
      else if isEqual (shifted_layer_plane (getStepPair p (current_layer (getId p)))) min_plane tol
      then (case addStepPair g (getId p) (getStepPair p (current_layer (getId p))) of
              Inl e \<Rightarrow> Inl e
            | Inr g' \<Rightarrow>
                group_with_min_plane tol min_plane ps
                  (current_layer(getId p := Suc (current_layer (getId p))), g'))
      else group_with_min_plane tol min_plane ps (current_layer, g))"

text \<open>The recomputation of \<^verbatim>\<open>steps_left\<close> at the end of the loop body.\<close>

definition steps_left :: "(quuid \<Rightarrow> nat) \<Rightarrow> part list \<Rightarrow> bool" where
  "steps_left current_layer build_parts =
     foldl (\<lambda>b p. b \<or> current_layer (getId p) < countStepPairs p) False build_parts"

text \<open>One run of the body of \<^verbatim>\<open>while (steps_left)\<close>, up to the push of the new layer.\<close>

definition by_height_body ::
  "distance \<Rightarrow> part list \<Rightarrow> (quuid \<Rightarrow> nat) \<Rightarrow> nat \<Rightarrow> error + ((quuid \<Rightarrow> nat) \<times> global_layer)" where
  "by_height_body tol build_parts current_layer num_global_steps =
     (case find_min_plane current_layer build_parts (QUuid, 0, 0) of
        (part_with_min_plane, min_plane, min_dist) \<Rightarrow>
          group_with_min_plane tol min_plane build_parts
            (current_layer, GlobalLayer_create num_global_steps))"

text \<open>
  The loop \<^verbatim>\<open>while (steps_left)\<close>. The flag is \<^verbatim>\<open>true\<close> before the first test, so the
  body runs once before the flag is first computed. The loop returns \<open>None\<close> when it does
  not end.
\<close>

partial_function (option) by_height_loop ::
  "distance \<Rightarrow> part list \<Rightarrow> (quuid \<Rightarrow> nat) \<Rightarrow> nat \<Rightarrow> global_layer list \<Rightarrow>
   (error + global_layer list) option" where
  [code]: "by_height_loop tol build_parts current_layer num_global_steps global_layers =
     (case by_height_body tol build_parts current_layer num_global_steps of
        Inl e \<Rightarrow> Some (Inl e)
      | Inr (current_layer', new_global_layer) \<Rightarrow>
          if steps_left current_layer' build_parts
          then by_height_loop tol build_parts current_layer' (Suc num_global_steps)
                 (global_layers @ [new_global_layer])
          else Some (Inr (global_layers @ [new_global_layer])))"

definition by_height :: "distance \<Rightarrow> part list \<Rightarrow> (error + global_layer list) option" where
  "by_height tol build_parts = by_height_loop tol build_parts (\<lambda>part_id. 0) 0 []"

section \<open>Batch mode: populateSteps\<close>

definition populateSteps ::
  "bool \<Rightarrow> settings \<Rightarrow> part list \<Rightarrow> (error + global_layer list) option" where
  "populateSteps qt_no_debug global_sb build_parts =
     (let order_method = kLayerOrdering global_sb in
      if order_method = kByHeight
      then by_height (kLayerGroupingTolerance global_sb) build_parts
      else if order_method = kByLayerNumber
      then Some (by_layer_number build_parts)
      else if order_method = kByPart
      then Some (by_part build_parts)
      else (case Q_ASSERT qt_no_debug False of
              Inl e \<Rightarrow> Some (Inl e)
            | Inr u \<Rightarrow> Some (Inr [])))"

section \<open>Notions used to state the properties\<close>

text \<open>All entries of a schedule, layer after layer, each with the id of its part.\<close>

definition all_step_pairs :: "global_layer list \<Rightarrow> (quuid \<times> step_pair) list" where
  "all_step_pairs global_layers = concat (map getStepPairs global_layers)"

text \<open>The step pairs that a schedule holds for one part id, in the order in which they
  appear across successive global layers.\<close>

definition steps_of_part_in :: "quuid \<Rightarrow> global_layer list \<Rightarrow> step_pair list" where
  "steps_of_part_in part_id global_layers =
     map snd (filter (\<lambda>e. fst e = part_id) (all_step_pairs global_layers))"

text \<open>The step pairs available from the parts: for every part, in list order, its step
  pairs at the indices \<open>0\<close> up to its count.\<close>

definition available_step_pairs :: "part list \<Rightarrow> (quuid \<times> step_pair) list" where
  "available_step_pairs build_parts =
     concat (map (\<lambda>p. map (\<lambda>i. (getId p, getStepPair p i)) [0..<countStepPairs p]) build_parts)"

text \<open>The dirty step pairs reported by the parts, each with the id of its part.\<close>

definition dirty_step_pairs :: "part list \<Rightarrow> (quuid \<times> step_pair) list" where
  "dirty_step_pairs build_parts =
     concat (map (\<lambda>p. map (Pair (getId p)) (getDirtyStepPairs p)) build_parts)"

text \<open>A part is a candidate of the by-height loop when its cursor has not reached its
  step count; its current plane is the shifted plane of the step pair under its cursor.\<close>

definition candidate :: "(quuid \<Rightarrow> nat) \<Rightarrow> part \<Rightarrow> bool" where
  "candidate current_layer p \<longleftrightarrow> current_layer (getId p) < countStepPairs p"

definition current_step_pair :: "(quuid \<Rightarrow> nat) \<Rightarrow> part \<Rightarrow> step_pair" where
  "current_step_pair current_layer p = getStepPair p (current_layer (getId p))"

definition current_plane :: "(quuid \<Rightarrow> nat) \<Rightarrow> part \<Rightarrow> plane" where
  "current_plane current_layer p = shifted_layer_plane (current_step_pair current_layer p)"

definition current_dist :: "(quuid \<Rightarrow> nat) \<Rightarrow> part \<Rightarrow> distance" where
  "current_dist current_layer p = linePlaneIntersection_distance (current_plane current_layer p)"

text \<open>The candidates that the grouping pass puts on the new layer.\<close>

definition grouped :: "distance \<Rightarrow> plane \<Rightarrow> (quuid \<Rightarrow> nat) \<Rightarrow> part list \<Rightarrow> part list" where
  "grouped tol min_plane current_layer build_parts =
     filter (\<lambda>p. candidate current_layer p
                 \<and> isEqual (current_plane current_layer p) min_plane tol) build_parts"

text \<open>The number of steps not yet scheduled.\<close>

definition remaining_steps :: "(quuid \<Rightarrow> nat) \<Rightarrow> part list \<Rightarrow> nat" where
  "remaining_steps current_layer build_parts =
     sum_list (map (\<lambda>p. countStepPairs p - current_layer (getId p)) build_parts)"

section \<open>Example inputs\<close>

text \<open>A step pair whose shifted plane lies at distance \<open>d\<close>: layer height \<open>2\<close>, slicing
  plane at \<open>d - 1\<close>.\<close>

definition step_at :: "real \<Rightarrow> step_pair" where
  "step_at d = \<lparr>printing_layer = \<lparr>getSlicingPlane = d - 1, kLayerHeight = 2\<rparr>\<rparr>"

definition part_A :: part where
  "part_A = \<lparr>getId = 1, m_step_pairs = [step_at 0, step_at 1, step_at 2], getDirtyStepPairs = []\<rparr>"

definition part_B :: part where
  "part_B = \<lparr>getId = 2, m_step_pairs = [step_at 0, step_at 2], getDirtyStepPairs = [step_at 2]\<rparr>"

definition part_low :: part where
  "part_low = \<lparr>getId = 1, m_step_pairs = [step_at 0], getDirtyStepPairs = []\<rparr>"

definition part_mid :: part where
  "part_mid = \<lparr>getId = 2, m_step_pairs = [step_at 2], getDirtyStepPairs = []\<rparr>"

definition part_high :: part where
  "part_high = \<lparr>getId = 3, m_step_pairs = [step_at 3], getDirtyStepPairs = []\<rparr>"

definition part_two_dirty :: part where
  "part_two_dirty =
     \<lparr>getId = 4, m_step_pairs = [step_at 0, step_at 1], getDirtyStepPairs = [step_at 0, step_at 1]\<rparr>"

definition settings_of :: "LayerOrdering \<Rightarrow> distance \<Rightarrow> settings" where
  "settings_of order_method tol = \<lparr>kLayerOrdering = order_method, kLayerGroupingTolerance = tol\<rparr>"

section \<open>Facts about adding to a global layer\<close>

lemma addStepPair_new:
  "part_id \<notin> fst ` set (getStepPairs g) \<Longrightarrow>
   addStepPair g part_id sp = Inr (g\<lparr>getStepPairs := getStepPairs g @ [(part_id, sp)]\<rparr>)"
  by (simp add: addStepPair_def map_of_eq_None_iff)

lemma addStepPair_present:
  "part_id \<in> fst ` set (getStepPairs g) \<Longrightarrow> addStepPair g part_id sp = Inl PreconditionViolation"
  by (simp add: addStepPair_def map_of_eq_None_iff)

lemma addStepPair_Inr_iff:
  "addStepPair g part_id sp = Inr g' \<longleftrightarrow>
     part_id \<notin> fst ` set (getStepPairs g)
     \<and> g' = g\<lparr>getStepPairs := getStepPairs g @ [(part_id, sp)]\<rparr>"
  by (auto simp: addStepPair_def map_of_eq_None_iff)

lemma addStepPair_Inl:
  "addStepPair g part_id sp = Inl e \<Longrightarrow> e = PreconditionViolation"
  by (auto simp: addStepPair_def split: if_splits)

lemma addStepPair_distinct:
  "addStepPair g part_id sp = Inr g' \<Longrightarrow> distinct (map fst (getStepPairs g)) \<Longrightarrow>
   distinct (map fst (getStepPairs g'))"
  by (auto simp: addStepPair_Inr_iff)

section \<open>The by-layer-number loops\<close>

lemma max_steps_foldl:
  "foldl (\<lambda>max_steps p. max max_steps (countStepPairs p)) a ps = Max (insert a (countStepPairs ` set ps))"
proof (induction ps arbitrary: a)
  case Nil
  then show ?case by simp
next
  case (Cons p ps)
  have "Max (insert (max a (countStepPairs p)) (countStepPairs ` set ps))
      = Max (insert a (insert (countStepPairs p) (countStepPairs ` set ps)))"
    by (cases "ps = []") (simp_all add: max.assoc)
  then show ?case using Cons.IH[of "max a (countStepPairs p)"] by simp
qed

lemma max_steps_by_layer_number_eq:
  "max_steps_by_layer_number ps = Max (insert 0 (countStepPairs ` set ps))"
  by (simp add: max_steps_by_layer_number_def max_steps_foldl)

lemma add_parts_at_step_result:
  assumes "distinct (map getId ps)" and "fst ` set (getStepPairs g) \<inter> getId ` set ps = {}"
  shows "add_parts_at_step s ps g =
           Inr (g\<lparr>getStepPairs := getStepPairs g
                  @ map (\<lambda>p. (getId p, getStepPair p s)) (filter (\<lambda>p. s < countStepPairs p) ps)\<rparr>)"
  using assms
proof (induction ps arbitrary: g)
  case Nil
  then show ?case by simp
next
  case (Cons p ps)
  show ?case
  proof (cases "s < countStepPairs p")
    case False
    then show ?thesis using Cons.IH[of g] Cons.prems by auto
  next
    case True
    let ?g = "g\<lparr>getStepPairs := getStepPairs g @ [(getId p, getStepPair p s)]\<rparr>"
    have a: "addStepPair g (getId p) (getStepPair p s) = Inr ?g"
      using Cons.prems by (intro addStepPair_new) auto
    have "fst ` set (getStepPairs ?g) \<inter> getId ` set ps = {}"
      using Cons.prems by auto
    from Cons.IH[OF _ this] Cons.prems(1) a True show ?thesis by simp
  qed
qed

lemma by_layer_number_loop_result:
  assumes "distinct (map getId ps)"
  shows "by_layer_number_loop s m ps gl =
           Inr (gl @ map (\<lambda>i. \<lparr>layer_index = i, getStepPairs =
                     map (\<lambda>p. (getId p, getStepPair p i)) (filter (\<lambda>p. i < countStepPairs p) ps)\<rparr>)
                   [s..<m])"
  using assms
proof (induction s m ps gl rule: by_layer_number_loop.induct)
  case (1 s m ps gl)
  show ?case
  proof (cases "s < m")
    case False
    then show ?thesis by (simp add: by_layer_number_loop.simps)
  next
    case True
    have a: "add_parts_at_step s ps (GlobalLayer_create s) =
        Inr \<lparr>layer_index = s, getStepPairs =
                     map (\<lambda>p. (getId p, getStepPair p s)) (filter (\<lambda>p. s < countStepPairs p) ps)\<rparr>"
      using add_parts_at_step_result[OF "1.prems", of "GlobalLayer_create s" s]
      by (simp add: GlobalLayer_create_def)
    show ?thesis
      using True "1.IH"[OF True a "1.prems"]
      by (subst by_layer_number_loop.simps) (simp add: a upt_conv_Cons)
  qed
qed

section \<open>The loops of the incremental mode\<close>

lemma add_dirty_step_groups_ok:
  assumes "length sps \<le> 1" and "k \<notin> fst ` set (getStepPairs g) \<or> sps = []"
  shows "add_dirty_step_groups k sps g = Inr (g\<lparr>getStepPairs := getStepPairs g @ map (Pair k) sps\<rparr>)"
proof (cases sps)
  case Nil
  then show ?thesis by simp
next
  case (Cons sp rest)
  then have "rest = []" using assms(1) by simp
  then show ?thesis using Cons assms(2) by (simp add: addStepPair_new)
qed

lemma add_dirty_step_groups_fail:
  assumes "2 \<le> length sps \<or> (k \<in> fst ` set (getStepPairs g) \<and> sps \<noteq> [])"
  shows "add_dirty_step_groups k sps g = Inl PreconditionViolation"
proof (cases sps)
  case Nil
  then show ?thesis using assms by simp
next
  case (Cons sp rest)
  show ?thesis
  proof (cases "k \<in> fst ` set (getStepPairs g)")
    case True
    then show ?thesis using Cons by (simp add: addStepPair_present)
  next
    case False
    then obtain sp' rest' where r: "rest = sp' # rest'"
      using assms Cons by (cases rest) auto
    have "addStepPair (g\<lparr>getStepPairs := getStepPairs g @ [(k, sp)]\<rparr>) k sp' = Inl PreconditionViolation"
      by (rule addStepPair_present) simp
    then show ?thesis using Cons r False by (simp add: addStepPair_new)
  qed
qed

lemma add_dirty_step_groups_cases:
  "add_dirty_step_groups k sps g =
     (if length sps \<le> 1 \<and> (k \<notin> fst ` set (getStepPairs g) \<or> sps = [])
      then Inr (g\<lparr>getStepPairs := getStepPairs g @ map (Pair k) sps\<rparr>)
      else Inl PreconditionViolation)"
  using add_dirty_step_groups_ok[of sps k g] add_dirty_step_groups_fail[of sps k g]
  by (auto simp: not_le)

lemma distinct_keys_append_dirty:
  "distinct (map fst (es @ map (Pair k) sps)) \<longleftrightarrow>
     distinct (map fst es) \<and> length sps \<le> 1 \<and> (k \<notin> fst ` set es \<or> sps = [])"
proof (cases sps)
  case Nil
  then show ?thesis by simp
next
  case (Cons sp rest)
  then show ?thesis by (cases rest) (auto simp: comp_def)
qed

lemma populateStep_parts_result:
  assumes "distinct (map fst (getStepPairs g))"
  shows "populateStep_parts ps g =
     (if distinct (map fst (getStepPairs g @ dirty_step_pairs ps))
      then Inr (g\<lparr>getStepPairs := getStepPairs g @ dirty_step_pairs ps\<rparr>)
      else Inl PreconditionViolation)"
  using assms
proof (induction ps arbitrary: g)
  case Nil
  then show ?case by (simp add: dirty_step_pairs_def)
next
  case (Cons p ps)
  let ?d = "map (Pair (getId p)) (getDirtyStepPairs p)"
  have dsp: "dirty_step_pairs (p # ps) = ?d @ dirty_step_pairs ps"
    by (simp add: dirty_step_pairs_def)
  show ?case
  proof (cases "distinct (map fst (getStepPairs g @ ?d))")
    case True
    let ?g = "g\<lparr>getStepPairs := getStepPairs g @ ?d\<rparr>"
    have a: "add_dirty_step_groups (getId p) (getDirtyStepPairs p) g = Inr ?g"
      using True Cons.prems unfolding add_dirty_step_groups_cases distinct_keys_append_dirty by simp
    have "distinct (map fst (getStepPairs ?g))" using True by simp
    from Cons.IH[OF this] show ?thesis using a dsp by simp
  next
    case False
    have a: "add_dirty_step_groups (getId p) (getDirtyStepPairs p) g = Inl PreconditionViolation"
      using False Cons.prems unfolding add_dirty_step_groups_cases distinct_keys_append_dirty by simp
    have "\<not> distinct (map fst (getStepPairs g @ dirty_step_pairs (p # ps)))"
      using False unfolding dsp by auto
    then show ?thesis using a by simp
  qed
qed

lemma by_layer_number_result:
  assumes "distinct (map getId ps)"
  shows "by_layer_number ps =
           Inr (map (\<lambda>i. \<lparr>layer_index = i, getStepPairs =
                        map (\<lambda>p. (getId p, getStepPair p i)) (filter (\<lambda>p. i < countStepPairs p) ps)\<rparr>)
                  [0..<Max (insert 0 (countStepPairs ` set ps))])"
  using by_layer_number_loop_result[OF assms, of 0 _ "[]"]
  by (simp add: by_layer_number_def max_steps_by_layer_number_eq)

lemma populateStep_cases:
  "populateStep ps =
     (if distinct (map fst (dirty_step_pairs ps))
      then Inr \<lparr>layer_index = 0, getStepPairs = dirty_step_pairs ps\<rparr>
      else Inl PreconditionViolation)"
  using populateStep_parts_result[of "GlobalLayer_create 0" ps]
  by (simp add: populateStep_def GlobalLayer_create_def)

section \<open>The by-part loops\<close>

lemma addStepPair_fresh:
  "addStepPair (GlobalLayer_create n) k sp = Inr \<lparr>layer_index = n, getStepPairs = [(k, sp)]\<rparr>"
  by (simp add: addStepPair_def GlobalLayer_create_def)

lemma by_part_steps_result:
  assumes "map layer_index gl = [0..<n]"
  shows "\<exists>gl'. by_part_steps p s (n, gl) = Inr (n + (countStepPairs p - s), gl')
           \<and> map layer_index gl' = [0..<n + (countStepPairs p - s)]
           \<and> map getStepPairs gl' = map getStepPairs gl
                 @ map (\<lambda>i. [(getId p, getStepPair p i)]) [s..<countStepPairs p]"
  using assms
proof (induction p s "(n, gl)" arbitrary: n gl rule: by_part_steps.induct)
  case (1 p s n gl)
  show ?case
  proof (cases "s < countStepPairs p")
    case False
    then show ?thesis using "1.prems"
      by (simp add: by_part_steps.simps)
  next
    case True
    let ?g = "\<lparr>layer_index = n, getStepPairs = [(getId p, getStepPair p s)]\<rparr>"
    have "map layer_index (gl @ [?g]) = [0..<Suc n]"
      using "1.prems" by simp
    from "1.hyps"[OF True addStepPair_fresh this]
    obtain gl' where r: "by_part_steps p (Suc s) (Suc n, gl @ [?g]) = Inr (Suc n + (countStepPairs p - Suc s), gl')"
      and i: "map layer_index gl' = [0..<Suc n + (countStepPairs p - Suc s)]"
      and e: "map getStepPairs gl' = map getStepPairs (gl @ [?g]) @ map (\<lambda>i. [(getId p, getStepPair p i)]) [Suc s..<countStepPairs p]"
      by blast
    have n: "Suc n + (countStepPairs p - Suc s) = n + (countStepPairs p - s)"
      using True by simp
    have "by_part_steps p s (n, gl) = Inr (n + (countStepPairs p - s), gl')"
      using True r unfolding n by (subst by_part_steps.simps) (simp add: addStepPair_fresh)
    moreover have "map layer_index gl' = [0..<n + (countStepPairs p - s)]"
      using i unfolding n .
    moreover have "map getStepPairs gl' = map getStepPairs gl
                 @ map (\<lambda>i. [(getId p, getStepPair p i)]) [s..<countStepPairs p]"
      using e True by (simp add: upt_conv_Cons)
    ultimately show ?thesis by blast
  qed
qed

lemma by_part_parts_result:
  assumes "map layer_index gl = [0..<n]"
  shows "\<exists>gl'. by_part_parts ps (n, gl) = Inr (n + sum_list (map countStepPairs ps), gl')
           \<and> map layer_index gl' = [0..<n + sum_list (map countStepPairs ps)]
           \<and> map getStepPairs gl' = map getStepPairs gl
                 @ concat (map (\<lambda>p. map (\<lambda>i. [(getId p, getStepPair p i)]) [0..<countStepPairs p]) ps)"
  using assms
proof (induction ps arbitrary: n gl)
  case Nil
  then show ?case by simp
next
  case (Cons p ps)
  from by_part_steps_result[OF Cons.prems, of p 0]
  obtain gl1 where a: "by_part_steps p 0 (n, gl) = Inr (n + countStepPairs p, gl1)"
    and b: "map layer_index gl1 = [0..<n + countStepPairs p]"
    and c: "map getStepPairs gl1 = map getStepPairs gl
                 @ map (\<lambda>i. [(getId p, getStepPair p i)]) [0..<countStepPairs p]"
    by auto
  from Cons.IH[OF b] obtain gl' where
    d: "by_part_parts ps (n + countStepPairs p, gl1) = Inr (n + countStepPairs p + sum_list (map countStepPairs ps), gl')"
    and e: "map layer_index gl' = [0..<n + countStepPairs p + sum_list (map countStepPairs ps)]"
    and f: "map getStepPairs gl' = map getStepPairs gl1
                 @ concat (map (\<lambda>p. map (\<lambda>i. [(getId p, getStepPair p i)]) [0..<countStepPairs p]) ps)"
    by blast
  show ?case using a d e f c by (simp add: add.assoc)
qed

lemma by_part_result:
  "\<exists>gl. by_part ps = Inr gl
      \<and> length gl = sum_list (map countStepPairs ps)
      \<and> map layer_index gl = [0..<length gl]
      \<and> map getStepPairs gl =
            concat (map (\<lambda>p. map (\<lambda>i. [(getId p, getStepPair p i)]) [0..<countStepPairs p]) ps)"
proof -
  from by_part_parts_result[of "[]" 0 ps]
  obtain gl where a: "by_part_parts ps (0, []) = Inr (sum_list (map countStepPairs ps), gl)"
    and b: "map layer_index gl = [0..<sum_list (map countStepPairs ps)]"
    and c: "map getStepPairs gl = concat (map (\<lambda>p. map (\<lambda>i. [(getId p, getStepPair p i)]) [0..<countStepPairs p]) ps)"
    by auto
  have len: "length gl = sum_list (map countStepPairs ps)"
    using b by (metis length_map length_upt minus_nat.diff_0)
  have "by_part ps = Inr gl"
    using a by (simp add: by_part_def)
  then show ?thesis using len b c by auto
qed

section \<open>The by-height loops: the minimum search and the grouping pass\<close>

lemma steps_left_foldl:
  "foldl (\<lambda>b p. b \<or> current_layer (getId p) < countStepPairs p) a ps
     \<longleftrightarrow> a \<or> (\<exists>p\<in>set ps. candidate current_layer p)"
  by (induction ps arbitrary: a) (auto simp: candidate_def)

lemma steps_left_iff:
  "steps_left current_layer ps \<longleftrightarrow> (\<exists>p\<in>set ps. candidate current_layer p)"
  by (simp add: steps_left_def steps_left_foldl)

lemma find_min_plane_Cons:
  "find_min_plane cl (p # ps) (a, b, c) =
     (if candidate cl p \<and> (isNull a \<or> current_dist cl p < c)
      then find_min_plane cl ps (getId p, current_plane cl p, current_dist cl p)
      else find_min_plane cl ps (a, b, c))"
  by (simp add: candidate_def current_dist_def current_plane_def current_step_pair_def Let_def)

lemma find_min_plane_cases:
  "find_min_plane cl ps st = st
   \<or> (\<exists>p\<in>set ps. candidate cl p
         \<and> find_min_plane cl ps st = (getId p, current_plane cl p, current_dist cl p))"
proof (induction ps arbitrary: st)
  case Nil
  then show ?case by simp
next
  case (Cons p ps)
  obtain a b c where st: "st = (a, b, c)" by (cases st)
  show ?case
  proof (cases "candidate cl p \<and> (isNull a \<or> current_dist cl p < c)")
    case True
    then show ?thesis
      using Cons.IH[of "(getId p, current_plane cl p, current_dist cl p)"]
      unfolding st find_min_plane_Cons by auto
  next
    case False
    then show ?thesis
      using Cons.IH[of "(a, b, c)"] unfolding st find_min_plane_Cons by auto
  qed
qed

lemma find_min_plane_candidate:
  assumes "isNull (fst st)" and "\<exists>p\<in>set ps. candidate cl p"
  shows "\<exists>p\<in>set ps. candidate cl p
           \<and> find_min_plane cl ps st = (getId p, current_plane cl p, current_dist cl p)"
  using assms
proof (induction ps arbitrary: st)
  case Nil
  then show ?case by simp
next
  case (Cons p ps)
  obtain a b c where st: "st = (a, b, c)" by (cases st)
  show ?case
  proof (cases "candidate cl p")
    case True
    then show ?thesis
      using Cons.prems(1) find_min_plane_cases[of cl ps "(getId p, current_plane cl p, current_dist cl p)"]
      unfolding st find_min_plane_Cons by auto
  next
    case False
    then show ?thesis
      using Cons.IH[of st] Cons.prems unfolding st find_min_plane_Cons by auto
  qed
qed

lemma find_min_plane_least:
  assumes "\<forall>p\<in>set ps. \<not> isNull (getId p)" and "find_min_plane cl ps st = (mid, mp, md)"
  shows "(\<forall>p\<in>set ps. candidate cl p \<longrightarrow> md \<le> current_dist cl p)
         \<and> (\<not> isNull (fst st) \<longrightarrow> md \<le> snd (snd st))"
  using assms
proof (induction ps arbitrary: st)
  case Nil
  then show ?case by auto
next
  case (Cons p ps)
  obtain a b c where st: "st = (a, b, c)" by (cases st)
  have nn: "\<forall>p\<in>set ps. \<not> isNull (getId p)" and np: "\<not> isNull (getId p)"
    using Cons.prems(1) by auto
  show ?case
  proof (cases "candidate cl p \<and> (isNull a \<or> current_dist cl p < c)")
    case True
    then have "find_min_plane cl ps (getId p, current_plane cl p, current_dist cl p) = (mid, mp, md)"
      using Cons.prems(2) unfolding st find_min_plane_Cons by simp
    from Cons.IH[OF nn this] np
    have 1: "\<forall>q\<in>set ps. candidate cl q \<longrightarrow> md \<le> current_dist cl q" and 2: "md \<le> current_dist cl p"
      by auto
    show ?thesis using 1 2 True unfolding st by auto
  next
    case False
    have "find_min_plane cl ps (a, b, c) = (mid, mp, md)"
      using Cons.prems(2) unfolding st find_min_plane_Cons if_not_P[OF False] .
    from Cons.IH[OF nn this]
    have 1: "\<forall>q\<in>set ps. candidate cl q \<longrightarrow> md \<le> current_dist cl q" and 2: "\<not> isNull a \<longrightarrow> md \<le> c"
      by auto
    show ?thesis using 1 2 False unfolding st by auto
  qed
qed

lemma group_with_min_plane_Cons:
  "group_with_min_plane tol mp (p # ps) (cl, g) =
     (if candidate cl p \<and> isEqual (current_plane cl p) mp tol
      then (case addStepPair g (getId p) (current_step_pair cl p) of
              Inl e \<Rightarrow> Inl e
            | Inr g' \<Rightarrow> group_with_min_plane tol mp ps (cl(getId p := Suc (cl (getId p))), g'))
      else group_with_min_plane tol mp ps (cl, g))"
  by (simp add: candidate_def current_plane_def current_step_pair_def)

lemma group_with_min_plane_mono:
  "group_with_min_plane tol mp ps (cl, g) = Inr (cl', g') \<Longrightarrow> cl k \<le> cl' k"
proof (induction ps arbitrary: cl g)
  case Nil
  then show ?case by simp
next
  case (Cons p ps)
  show ?case
  proof (cases "candidate cl p \<and> isEqual (current_plane cl p) mp tol")
    case True
    then obtain g1 where "addStepPair g (getId p) (current_step_pair cl p) = Inr g1"
      and "group_with_min_plane tol mp ps (cl(getId p := Suc (cl (getId p))), g1) = Inr (cl', g')"
      using Cons.prems unfolding group_with_min_plane_Cons by (auto split: sum.splits)
    from Cons.IH[OF this(2)] show ?thesis by (auto split: if_splits)
  next
    case False
    then show ?thesis using Cons unfolding group_with_min_plane_Cons by auto
  qed
qed

lemma group_with_min_plane_advances:
  assumes "group_with_min_plane tol mp ps (cl, g) = Inr (cl', g')"
    and "p \<in> set ps" and "candidate cl p" and "isEqual (current_plane cl p) mp tol"
  shows "cl (getId p) < cl' (getId p)"
  using assms
proof (induction ps arbitrary: cl g)
  case Nil
  then show ?case by simp
next
  case (Cons q ps)
  show ?case
  proof (cases "candidate cl q \<and> isEqual (current_plane cl q) mp tol")
    case True
    then obtain g1 where a: "addStepPair g (getId q) (current_step_pair cl q) = Inr g1"
      and r: "group_with_min_plane tol mp ps (cl(getId q := Suc (cl (getId q))), g1) = Inr (cl', g')"
      using Cons.prems(1) unfolding group_with_min_plane_Cons by (auto split: sum.splits)
    show ?thesis
    proof (cases "getId q = getId p")
      case True
      with group_with_min_plane_mono[OF r, of "getId p"] show ?thesis by simp
    next
      case False
      let ?cl = "cl(getId q := Suc (cl (getId q)))"
      have "p \<in> set ps" using Cons.prems(2) False by auto
      moreover have "candidate ?cl p" using Cons.prems(3) False by (simp add: candidate_def)
      moreover have "isEqual (current_plane ?cl p) mp tol"
        using Cons.prems(4) False by (simp add: current_plane_def current_step_pair_def)
      ultimately have "?cl (getId p) < cl' (getId p)"
        using Cons.IH[OF r] by blast
      then show ?thesis using False by simp
    qed
  next
    case False
    then have "p \<noteq> q" using Cons.prems by auto
    then have "p \<in> set ps" using Cons.prems(2) by simp
    moreover have "group_with_min_plane tol mp ps (cl, g) = Inr (cl', g')"
      using False Cons.prems(1) unfolding group_with_min_plane_Cons by auto
    ultimately show ?thesis using Cons.IH Cons.prems(3,4) by blast
  qed
qed

lemma group_with_min_plane_distinct:
  assumes "group_with_min_plane tol mp ps (cl, g) = Inr (cl', g')"
    and "distinct (map fst (getStepPairs g))"
  shows "distinct (map fst (getStepPairs g')) \<and> layer_index g' = layer_index g"
  using assms
proof (induction ps arbitrary: cl g)
  case Nil
  then show ?case by simp
next
  case (Cons q ps)
  show ?case
  proof (cases "candidate cl q \<and> isEqual (current_plane cl q) mp tol")
    case True
    then obtain g1 where a: "addStepPair g (getId q) (current_step_pair cl q) = Inr g1"
      and r: "group_with_min_plane tol mp ps (cl(getId q := Suc (cl (getId q))), g1) = Inr (cl', g')"
      using Cons.prems(1) unfolding group_with_min_plane_Cons by (auto split: sum.splits)
    have "layer_index g1 = layer_index g" using a by (auto simp: addStepPair_Inr_iff)
    then show ?thesis
      using Cons.IH[OF r addStepPair_distinct[OF a Cons.prems(2)]] by simp
  next
    case False
    then show ?thesis using Cons unfolding group_with_min_plane_Cons by auto
  qed
qed

section \<open>The by-height loop: termination\<close>

lemma isEqual_refl: "0 \<le> tol \<Longrightarrow> isEqual pl pl tol"
  by (simp add: isEqual_def)

lemma sum_list_less_one:
  fixes f g :: "'a \<Rightarrow> nat"
  assumes "\<forall>x\<in>set xs. f x \<le> g x" and "\<exists>x\<in>set xs. f x < g x"
  shows "sum_list (map f xs) < sum_list (map g xs)"
  using assms
proof (induction xs)
  case Nil
  then show ?case by simp
next
  case (Cons x xs)
  have le: "sum_list (map f xs) \<le> sum_list (map g xs)"
    using Cons.prems(1) by (intro sum_list_mono) simp
  show ?case
  proof (cases "f x < g x")
    case True
    then show ?thesis using le by simp
  next
    case False
    then have "\<exists>y\<in>set xs. f y < g y" using Cons.prems(2) by auto
    then have "sum_list (map f xs) < sum_list (map g xs)"
      using Cons.IH Cons.prems(1) by simp
    moreover have "f x \<le> g x" using Cons.prems(1) by simp
    ultimately show ?thesis by simp
  qed
qed

lemma group_with_min_plane_remaining:
  assumes "group_with_min_plane tol mp ps (cl, g) = Inr (cl', g')"
    and "p \<in> set ps" and "candidate cl p" and "isEqual (current_plane cl p) mp tol"
  shows "remaining_steps cl' ps < remaining_steps cl ps"
  unfolding remaining_steps_def
proof (rule sum_list_less_one)
  show "\<forall>q\<in>set ps. countStepPairs q - cl' (getId q) \<le> countStepPairs q - cl (getId q)"
    using group_with_min_plane_mono[OF assms(1)] by (simp add: diff_le_mono2)
  have "cl (getId p) < cl' (getId p)"
    using group_with_min_plane_advances[OF assms] .
  moreover have "cl (getId p) < countStepPairs p"
    using assms(3) by (simp add: candidate_def)
  ultimately have "countStepPairs p - cl' (getId p) < countStepPairs p - cl (getId p)"
    by simp
  then show "\<exists>q\<in>set ps. countStepPairs q - cl' (getId q) < countStepPairs q - cl (getId q)"
    using assms(2) by blast
qed

text \<open>The part found by the minimum search, when there is a candidate.\<close>

lemma by_height_body_min_part:
  assumes "\<exists>p\<in>set ps. candidate cl p"
  shows "\<exists>p\<in>set ps. candidate cl p
           \<and> find_min_plane cl ps (QUuid, 0, 0) = (getId p, current_plane cl p, current_dist cl p)"
  using find_min_plane_candidate[of "(QUuid, 0, 0)" ps cl] assms
  by (simp add: QUuid_def isNull_def)

lemma by_height_body_remaining:
  assumes "0 \<le> tol" and "\<exists>p\<in>set ps. candidate cl p"
    and "by_height_body tol ps cl n = Inr (cl', g)"
  shows "remaining_steps cl' ps < remaining_steps cl ps"
proof -
  from by_height_body_min_part[OF assms(2)] obtain p where p: "p \<in> set ps" "candidate cl p"
    and m: "find_min_plane cl ps (QUuid, 0, 0) = (getId p, current_plane cl p, current_dist cl p)"
    by blast
  have "group_with_min_plane tol (current_plane cl p) ps (cl, GlobalLayer_create n) = Inr (cl', g)"
    using assms(3) m by (simp add: by_height_body_def)
  from group_with_min_plane_remaining[OF this p isEqual_refl[OF assms(1)]] show ?thesis .
qed

lemma by_height_body_mono:
  "by_height_body tol ps cl n = Inr (cl', g) \<Longrightarrow> cl k \<le> cl' k"
  by (auto simp: by_height_body_def split: prod.splits dest: group_with_min_plane_mono)

lemma candidate_mono:
  "candidate cl' p \<Longrightarrow> cl (getId p) \<le> cl' (getId p) \<Longrightarrow> candidate cl p"
  by (simp add: candidate_def)

lemma by_height_loop_terminates:
  assumes "0 \<le> tol"
  shows "\<exists>r. by_height_loop tol ps cl n gl = Some r"
proof (induction "remaining_steps cl ps" arbitrary: cl n gl rule: less_induct)
  case less
  show ?case
  proof (cases "by_height_body tol ps cl n")
    case (Inl e)
    then show ?thesis by (subst by_height_loop.simps) simp
  next
    case (Inr st)
    obtain cl' g where st: "st = (cl', g)" by (cases st)
    note b = Inr[unfolded st]
    show ?thesis
    proof (cases "steps_left cl' ps")
      case False
      then show ?thesis using b by (subst by_height_loop.simps) simp
    next
      case True
      then obtain p where "p \<in> set ps" "candidate cl' p"
        by (auto simp: steps_left_iff)
      then have "\<exists>p\<in>set ps. candidate cl p"
        using candidate_mono[of cl' p cl] by_height_body_mono[OF b, of "getId p"] by blast
      from by_height_body_remaining[OF assms this b]
      have "\<exists>r. by_height_loop tol ps cl' (Suc n) (gl @ [g]) = Some r"
        by (rule less)
      then show ?thesis using b True by (subst by_height_loop.simps) simp
    qed
  qed
qed

section \<open>The by-height loop for parts with different ids\<close>

lemma grouped_Cons:
  "grouped tol mp cl (p # ps) =
     (if candidate cl p \<and> isEqual (current_plane cl p) mp tol
      then p # grouped tol mp cl ps else grouped tol mp cl ps)"
  by (simp add: grouped_def)

lemma grouped_subset: "set (grouped tol mp cl ps) \<subseteq> set ps"
  by (auto simp: grouped_def)

lemma grouped_upd:
  assumes "k \<notin> getId ` set ps"
  shows "grouped tol mp (cl(k := v)) ps = grouped tol mp cl ps"
  unfolding grouped_def
  using assms by (intro filter_cong) (auto simp: candidate_def current_plane_def current_step_pair_def)

lemma current_step_pairs_upd:
  assumes "k \<notin> getId ` set qs"
  shows "map (\<lambda>p. (getId p, current_step_pair (cl(k := v)) p)) qs
         = map (\<lambda>p. (getId p, current_step_pair cl p)) qs"
  using assms by (intro map_cong) (auto simp: current_step_pair_def)

lemma group_with_min_plane_result:
  assumes "distinct (map getId ps)" and "fst ` set (getStepPairs g) \<inter> getId ` set ps = {}"
  shows "group_with_min_plane tol mp ps (cl, g) =
           Inr (\<lambda>k. if k \<in> getId ` set (grouped tol mp cl ps) then Suc (cl k) else cl k,
                g\<lparr>getStepPairs := getStepPairs g
                     @ map (\<lambda>p. (getId p, current_step_pair cl p)) (grouped tol mp cl ps)\<rparr>)"
  using assms
proof (induction ps arbitrary: cl g)
  case Nil
  then show ?case by (simp add: grouped_def)
next
  case (Cons p ps)
  have d: "distinct (map getId ps)" and np: "getId p \<notin> getId ` set ps"
    using Cons.prems(1) by auto
  show ?case
  proof (cases "candidate cl p \<and> isEqual (current_plane cl p) mp tol")
    case False
    have "fst ` set (getStepPairs g) \<inter> getId ` set ps = {}"
      using Cons.prems(2) by auto
    from Cons.IH[OF d this, of cl] show ?thesis
      unfolding group_with_min_plane_Cons grouped_Cons if_not_P[OF False] .
  next
    case True
    let ?cl = "cl(getId p := Suc (cl (getId p)))"
    let ?g = "g\<lparr>getStepPairs := getStepPairs g @ [(getId p, current_step_pair cl p)]\<rparr>"
    let ?M = "grouped tol mp cl ps"
    have a: "addStepPair g (getId p) (current_step_pair cl p) = Inr ?g"
      using Cons.prems(2) by (intro addStepPair_new) auto
    have k: "fst ` set (getStepPairs ?g) \<inter> getId ` set ps = {}"
      using Cons.prems(2) np by auto
    have npM: "getId p \<notin> getId ` set ?M"
      using np grouped_subset[of tol mp cl ps] by auto
    have f: "(\<lambda>k. if k \<in> getId ` set ?M then Suc (?cl k) else ?cl k)
           = (\<lambda>k. if k \<in> getId ` set (p # ?M) then Suc (cl k) else cl k)"
      using npM by (intro ext) auto
    have e: "map (\<lambda>q. (getId q, current_step_pair ?cl q)) ?M
           = map (\<lambda>q. (getId q, current_step_pair cl q)) ?M"
      using npM by (rule current_step_pairs_upd)
    have "group_with_min_plane tol mp (p # ps) (cl, g)
           = group_with_min_plane tol mp ps (?cl, ?g)"
      unfolding group_with_min_plane_Cons if_P[OF True] a by simp
    also have "\<dots> = Inr (\<lambda>k. if k \<in> getId ` set ?M then Suc (?cl k) else ?cl k,
                ?g\<lparr>getStepPairs := getStepPairs ?g
                     @ map (\<lambda>q. (getId q, current_step_pair ?cl q)) ?M\<rparr>)"
      using Cons.IH[OF d k, of ?cl] unfolding grouped_upd[OF np] .
    finally show ?thesis
      unfolding f e grouped_Cons if_P[OF True] by simp
  qed
qed

text \<open>The body of the loop for parts with different ids.\<close>

lemma by_height_body_result:
  assumes "distinct (map getId ps)"
  shows "by_height_body tol ps cl n =
           Inr (\<lambda>k. if k \<in> getId ` set (grouped tol (fst (snd (find_min_plane cl ps (QUuid, 0, 0)))) cl ps)
                     then Suc (cl k) else cl k,
                \<lparr>layer_index = n, getStepPairs =
                   map (\<lambda>p. (getId p, current_step_pair cl p))
                     (grouped tol (fst (snd (find_min_plane cl ps (QUuid, 0, 0)))) cl ps)\<rparr>)"
  using group_with_min_plane_result[OF assms, of "GlobalLayer_create n" tol _ cl]
  by (simp add: by_height_body_def GlobalLayer_create_def split: prod.splits)

lemma filter_key_absent:
  "k \<notin> getId ` set qs \<Longrightarrow> filter (\<lambda>e. fst e = k) (map (\<lambda>q. (getId q, f q)) qs) = []"
  by (induction qs) auto

lemma filter_key_present:
  "distinct (map getId qs) \<Longrightarrow> p \<in> set qs \<Longrightarrow>
   filter (\<lambda>e. fst e = getId p) (map (\<lambda>q. (getId q, f q)) qs) = [(getId p, f p)]"
proof (induction qs)
  case Nil
  then show ?case by simp
next
  case (Cons q qs)
  show ?case
  proof (cases "q = p")
    case True
    then show ?thesis using Cons.prems(1) by (simp add: filter_key_absent)
  next
    case False
    then have "p \<in> set qs" using Cons.prems(2) by simp
    moreover from this have "getId q \<noteq> getId p" using Cons.prems(1) by auto
    ultimately show ?thesis using Cons by simp
  qed
qed

lemma distinct_ids_mem:
  assumes "distinct (map getId ps)" and "p \<in> set ps" and "set qs \<subseteq> set ps"
  shows "getId p \<in> getId ` set qs \<longleftrightarrow> p \<in> set qs"
proof -
  have "inj_on getId (set ps)" using assms(1) by (simp add: distinct_map)
  then show ?thesis using assms(2,3) by (auto dest: inj_onD)
qed

lemma distinct_ids_grouped:
  "distinct (map getId ps) \<Longrightarrow> distinct (map getId (grouped tol mp cl ps))"
  by (simp add: grouped_def distinct_map_filter)

text \<open>What one layer of the loop holds for a part, and how the cursor of the part moves.\<close>

lemma grouped_layer_of_part:
  assumes "distinct (map getId ps)" and "p \<in> set ps"
  shows "map snd (filter (\<lambda>e. fst e = getId p)
            (map (\<lambda>q. (getId q, current_step_pair cl q)) (grouped tol mp cl ps)))
         @ drop (if getId p \<in> getId ` set (grouped tol mp cl ps) then Suc (cl (getId p)) else cl (getId p))
             (m_step_pairs p)
         = drop (cl (getId p)) (m_step_pairs p)"
proof (cases "p \<in> set (grouped tol mp cl ps)")
  case True
  then have c: "cl (getId p) < length (m_step_pairs p)"
    by (simp add: grouped_def candidate_def countStepPairs_def)
  have "getId p \<in> getId ` set (grouped tol mp cl ps)" using True by simp
  moreover have "filter (\<lambda>e. fst e = getId p)
            (map (\<lambda>q. (getId q, current_step_pair cl q)) (grouped tol mp cl ps))
          = [(getId p, current_step_pair cl p)]"
    using distinct_ids_grouped[OF assms(1)] True by (rule filter_key_present)
  ultimately show ?thesis
    using c by (simp add: current_step_pair_def getStepPair_def Cons_nth_drop_Suc)
next
  case False
  then have n: "getId p \<notin> getId ` set (grouped tol mp cl ps)"
    using distinct_ids_mem[OF assms grouped_subset] by simp
  then show ?thesis by (simp add: filter_key_absent)
qed

lemma steps_of_part_in_Cons:
  "steps_of_part_in k (g # rest) =
     map snd (filter (\<lambda>e. fst e = k) (getStepPairs g)) @ steps_of_part_in k rest"
  by (simp add: steps_of_part_in_def all_step_pairs_def)

lemma steps_of_part_in_Nil: "steps_of_part_in k [] = []"
  by (simp add: steps_of_part_in_def all_step_pairs_def)

lemma all_step_pairs_Cons: "all_step_pairs (g # rest) = getStepPairs g @ all_step_pairs rest"
  by (simp add: all_step_pairs_def)

lemma min_part_grouped:
  assumes "0 \<le> tol" and "\<exists>p\<in>set ps. candidate cl p"
  shows "\<exists>p\<in>set ps. candidate cl p
           \<and> find_min_plane cl ps (QUuid, 0, 0) = (getId p, current_plane cl p, current_dist cl p)
           \<and> p \<in> set (grouped tol (fst (snd (find_min_plane cl ps (QUuid, 0, 0)))) cl ps)"
proof -
  from by_height_body_min_part[OF assms(2)] obtain p where p: "p \<in> set ps" "candidate cl p"
    and m: "find_min_plane cl ps (QUuid, 0, 0) = (getId p, current_plane cl p, current_dist cl p)"
    by blast
  have "p \<in> set (grouped tol (current_plane cl p) cl ps)"
    using p isEqual_refl[OF assms(1)] by (simp add: grouped_def)
  then show ?thesis using p m by auto
qed

lemma by_height_loop_result:
  assumes "distinct (map getId ps)" and "0 \<le> tol"
  shows "\<exists>layers. by_height_loop tol ps cl n gl = Some (Inr (gl @ layers))
           \<and> layers \<noteq> []
           \<and> map layer_index layers = [n..<n + length layers]
           \<and> (\<forall>p\<in>set ps. steps_of_part_in (getId p) layers = drop (cl (getId p)) (m_step_pairs p))
           \<and> (\<forall>e\<in>set (all_step_pairs layers). fst e \<in> getId ` set ps)
           \<and> ((\<exists>p\<in>set ps. candidate cl p) \<longrightarrow> (\<forall>g\<in>set layers. getStepPairs g \<noteq> []))"
proof (induction "remaining_steps cl ps" arbitrary: cl n gl rule: less_induct)
  case less
  define M where "M = grouped tol (fst (snd (find_min_plane cl ps (QUuid, 0, 0)))) cl ps"
  define cl' where "cl' = (\<lambda>k. if k \<in> getId ` set M then Suc (cl k) else cl k)"
  define g where "g = \<lparr>layer_index = n, getStepPairs = map (\<lambda>p. (getId p, current_step_pair cl p)) M\<rparr>"
  have b: "by_height_body tol ps cl n = Inr (cl', g)"
    using by_height_body_result[OF assms(1), of tol cl n] by (simp add: M_def cl'_def g_def)
  have tr: "map snd (filter (\<lambda>e. fst e = getId p) (getStepPairs g)) @ drop (cl' (getId p)) (m_step_pairs p)
            = drop (cl (getId p)) (m_step_pairs p)" if "p \<in> set ps" for p
    using grouped_layer_of_part[OF assms(1) that, of cl tol "fst (snd (find_min_plane cl ps (QUuid, 0, 0)))"]
    by (simp add: M_def cl'_def g_def)
  have keys: "\<forall>e\<in>set (getStepPairs g). fst e \<in> getId ` set ps"
    using grouped_subset[of tol "fst (snd (find_min_plane cl ps (QUuid, 0, 0)))" cl ps]
    by (auto simp: g_def M_def)
  have ne: "getStepPairs g \<noteq> []" if "\<exists>p\<in>set ps. candidate cl p"
    using min_part_grouped[OF assms(2) that] by (auto simp: g_def M_def)
  show ?case
  proof (cases "steps_left cl' ps")
    case False
    then have fin: "drop (cl' (getId p)) (m_step_pairs p) = []" if "p \<in> set ps" for p
      using that by (auto simp: steps_left_iff candidate_def countStepPairs_def)
    have r: "by_height_loop tol ps cl n gl = Some (Inr (gl @ [g]))"
      using b False by (subst by_height_loop.simps) simp
    have "\<forall>p\<in>set ps. steps_of_part_in (getId p) [g] = drop (cl (getId p)) (m_step_pairs p)"
      using tr fin by (simp add: steps_of_part_in_Cons steps_of_part_in_Nil)
    moreover have "\<forall>e\<in>set (all_step_pairs [g]). fst e \<in> getId ` set ps"
      using keys by (simp add: all_step_pairs_def)
    moreover have "map layer_index [g] = [n..<n + length [g]]"
      by (simp add: g_def)
    moreover have "(\<exists>p\<in>set ps. candidate cl p) \<longrightarrow> (\<forall>g\<in>set [g]. getStepPairs g \<noteq> [])"
      using ne by simp
    ultimately show ?thesis using r by blast
  next
    case True
    then have c': "\<exists>p\<in>set ps. candidate cl' p"
      by (simp add: steps_left_iff)
    then obtain p where "p \<in> set ps" "candidate cl' p" by blast
    then have c: "\<exists>p\<in>set ps. candidate cl p"
      using candidate_mono[of cl' p cl] by_height_body_mono[OF b, of "getId p"] by blast
    have "remaining_steps cl' ps < remaining_steps cl ps"
      using by_height_body_remaining[OF assms(2) c b] .
    from less[OF this, of "Suc n" "gl @ [g]"] obtain rest where
      r: "by_height_loop tol ps cl' (Suc n) (gl @ [g]) = Some (Inr ((gl @ [g]) @ rest))"
      and i: "map layer_index rest = [Suc n..<Suc n + length rest]"
      and t: "\<forall>p\<in>set ps. steps_of_part_in (getId p) rest = drop (cl' (getId p)) (m_step_pairs p)"
      and k: "\<forall>e\<in>set (all_step_pairs rest). fst e \<in> getId ` set ps"
      and e: "\<forall>g\<in>set rest. getStepPairs g \<noteq> []"
      using c' by blast
    have "by_height_loop tol ps cl n gl = Some (Inr (gl @ (g # rest)))"
      using b True r by (subst by_height_loop.simps) simp
    moreover have "map layer_index (g # rest) = [n..<n + length (g # rest)]"
    proof -
      have "[n..<n + length (g # rest)] = n # [Suc n..<Suc n + length rest]"
        by (subst upt_conv_Cons) simp_all
      then show ?thesis unfolding i[symmetric] by (simp add: g_def)
    qed
    moreover have "\<forall>p\<in>set ps. steps_of_part_in (getId p) (g # rest) = drop (cl (getId p)) (m_step_pairs p)"
      using tr t by (simp add: steps_of_part_in_Cons)
    moreover have "\<forall>e\<in>set (all_step_pairs (g # rest)). fst e \<in> getId ` set ps"
      using keys k by (auto simp: all_step_pairs_Cons)
    moreover have "\<forall>g\<in>set (g # rest). getStepPairs g \<noteq> []"
      using ne[OF c] e by simp
    ultimately show ?thesis by blast
  qed
qed

section \<open>At most one entry per part in a global layer\<close>

lemma add_dirty_step_groups_distinct:
  "add_dirty_step_groups k sps g = Inr g' \<Longrightarrow> distinct (map fst (getStepPairs g)) \<Longrightarrow>
   distinct (map fst (getStepPairs g'))"
proof (induction sps arbitrary: g)
  case Nil
  then show ?case by simp
next
  case (Cons sp sps)
  then show ?case
    by (auto split: sum.splits dest: addStepPair_distinct)
qed

lemma populateStep_parts_distinct:
  "populateStep_parts ps g = Inr g' \<Longrightarrow> distinct (map fst (getStepPairs g)) \<Longrightarrow>
   distinct (map fst (getStepPairs g'))"
proof (induction ps arbitrary: g)
  case Nil
  then show ?case by simp
next
  case (Cons p ps)
  then show ?case
    by (auto split: sum.splits dest: add_dirty_step_groups_distinct)
qed

lemma populateStep_distinct:
  "populateStep ps = Inr g \<Longrightarrow> distinct (map fst (getStepPairs g))"
  using populateStep_parts_distinct[of ps "GlobalLayer_create 0" g]
  by (simp add: populateStep_def GlobalLayer_create_def)

lemma populateStep_parts_two_dirty:
  assumes "p \<in> set ps" and "2 \<le> length (getDirtyStepPairs p)"
  shows "populateStep_parts ps g = Inl PreconditionViolation"
  using assms(1)
proof (induction ps arbitrary: g)
  case Nil
  then show ?case by simp
next
  case (Cons q ps)
  show ?case
  proof (cases "add_dirty_step_groups (getId q) (getDirtyStepPairs q) g")
    case (Inl e)
    then have "e = PreconditionViolation"
      by (simp add: add_dirty_step_groups_cases split: if_splits)
    then show ?thesis using Inl by simp
  next
    case (Inr g1)
    then have "q \<noteq> p"
      using assms(2) by (auto simp: add_dirty_step_groups_cases split: if_splits)
    then have "p \<in> set ps" using Cons.prems by simp
    from Cons.IH[OF this] Inr show ?thesis by simp
  qed
qed

lemma add_parts_at_step_distinct:
  "add_parts_at_step s ps g = Inr g' \<Longrightarrow> distinct (map fst (getStepPairs g)) \<Longrightarrow>
   distinct (map fst (getStepPairs g'))"
proof (induction ps arbitrary: g)
  case Nil
  then show ?case by simp
next
  case (Cons p ps)
  then show ?case
    by (auto split: sum.splits if_splits dest: addStepPair_distinct)
qed

lemma by_layer_number_loop_distinct:
  "by_layer_number_loop s m ps gl = Inr layers \<Longrightarrow>
   \<forall>g\<in>set gl. distinct (map fst (getStepPairs g)) \<Longrightarrow>
   \<forall>g\<in>set layers. distinct (map fst (getStepPairs g))"
proof (induction s m ps gl rule: by_layer_number_loop.induct)
  case (1 s m ps gl)
  show ?case
  proof (cases "s < m")
    case False
    then show ?thesis using "1.prems" by (simp add: by_layer_number_loop.simps)
  next
    case True
    then obtain g where a: "add_parts_at_step s ps (GlobalLayer_create s) = Inr g"
      and r: "by_layer_number_loop (Suc s) m ps (gl @ [g]) = Inr layers"
      using "1.prems"(1) by (subst (asm) by_layer_number_loop.simps) (auto split: sum.splits)
    have "distinct (map fst (getStepPairs g))"
      using add_parts_at_step_distinct[OF a] by (simp add: GlobalLayer_create_def)
    then have "\<forall>g\<in>set (gl @ [g]). distinct (map fst (getStepPairs g))"
      using "1.prems"(2) by simp
    from "1.IH"[OF True a r this] show ?thesis .
  qed
qed

lemma by_layer_number_distinct:
  "by_layer_number ps = Inr layers \<Longrightarrow> \<forall>g\<in>set layers. distinct (map fst (getStepPairs g))"
  using by_layer_number_loop_distinct[of 0 _ ps "[]" layers] by (simp add: by_layer_number_def)

lemma by_part_distinct:
  assumes "by_part ps = Inr layers"
  shows "\<forall>g\<in>set layers. distinct (map fst (getStepPairs g))"
proof
  fix g assume g: "g \<in> set layers"
  from by_part_result[of ps] assms have
    m: "map getStepPairs layers =
            concat (map (\<lambda>p. map (\<lambda>i. [(getId p, getStepPair p i)]) [0..<countStepPairs p]) ps)"
    by auto
  have "getStepPairs g \<in> set (map getStepPairs layers)" using g by simp
  then obtain k sp where "getStepPairs g = [(k, sp)]" unfolding m by auto
  then show "distinct (map fst (getStepPairs g))" by simp
qed

lemma by_height_body_distinct:
  "by_height_body tol ps cl n = Inr (cl', g) \<Longrightarrow> distinct (map fst (getStepPairs g))"
  using group_with_min_plane_distinct[of tol _ ps cl "GlobalLayer_create n" cl' g]
  by (auto simp: by_height_body_def GlobalLayer_create_def split: prod.splits)

lemma by_height_loop_distinct_aux:
  assumes "by_height_loop tol ps cl n gl = Some r"
  shows "\<forall>layers. r = Inr layers \<longrightarrow> (\<forall>g\<in>set gl. distinct (map fst (getStepPairs g)))
           \<longrightarrow> (\<forall>g\<in>set layers. distinct (map fst (getStepPairs g)))"
proof (rule by_height_loop.raw_induct[OF _ assms], goal_cases)
  case (1 loop tol ps cl n gl r)
  note IH = 1(1) and eq = 1(2)
  show ?case
  proof (intro allI impI)
    fix layers
    assume r: "r = Inr layers" and d: "\<forall>g\<in>set gl. distinct (map fst (getStepPairs g))"
    show "\<forall>g\<in>set layers. distinct (map fst (getStepPairs g))"
    proof (cases "by_height_body tol ps cl n")
      case (Inl e)
      then show ?thesis using eq r by simp
    next
      case (Inr st)
      obtain cl' g where st: "st = (cl', g)" by (cases st)
      note b = Inr[unfolded st]
      have dg: "\<forall>g\<in>set (gl @ [g]). distinct (map fst (getStepPairs g))"
        using d by_height_body_distinct[OF b] by simp
      show ?thesis
      proof (cases "steps_left cl' ps")
        case True
        then have "loop tol ps cl' (Suc n) (gl @ [g]) = Some r"
          using eq b by simp
        from IH[OF this] r dg show ?thesis by blast
      next
        case False
        then have "layers = gl @ [g]"
          using eq b r by simp
        then show ?thesis using dg by simp
      qed
    qed
  qed
qed

lemma by_height_loop_distinct:
  assumes "by_height_loop tol ps cl n gl = Some (Inr layers)"
    and "\<forall>g\<in>set gl. distinct (map fst (getStepPairs g))"
  shows "\<forall>g\<in>set layers. distinct (map fst (getStepPairs g))"
  using by_height_loop_distinct_aux[OF assms(1)] assms(2) by blast

lemma populateSteps_distinct:
  assumes "populateSteps qt_no_debug global_sb ps = Some (Inr layers)"
  shows "\<forall>g\<in>set layers. distinct (map fst (getStepPairs g))"
proof (cases "kLayerOrdering global_sb")
  case kByHeight
  then show ?thesis
    using assms by_height_loop_distinct[of "kLayerGroupingTolerance global_sb" ps "\<lambda>part_id. 0" 0 "[]" layers]
    by (simp add: populateSteps_def by_height_def)
next
  case kByLayerNumber
  then show ?thesis
    using assms by_layer_number_distinct[of ps layers] by (simp add: populateSteps_def)
next
  case kByPart
  then show ?thesis
    using assms by_part_distinct[of ps layers] by (simp add: populateSteps_def)
next
  case (kUnrecognized v)
  then show ?thesis
    using assms by (auto simp: populateSteps_def Q_ASSERT_def split: if_splits)
qed

section \<open>The by-height loop: what one pass groups\<close>

lemma entry_in_grouped_layer:
  assumes "distinct (map getId ps)" and "p \<in> set ps" and "set M \<subseteq> set ps"
  shows "(getId p, f p) \<in> set (map (\<lambda>q. (getId q, f q)) M) \<longleftrightarrow> p \<in> set M"
proof
  assume "(getId p, f p) \<in> set (map (\<lambda>q. (getId q, f q)) M)"
  then have "getId p \<in> getId ` set M" by auto
  then show "p \<in> set M" using distinct_ids_mem[OF assms] by simp
next
  assume "p \<in> set M"
  then show "(getId p, f p) \<in> set (map (\<lambda>q. (getId q, f q)) M)" by auto
qed

lemma by_height_body_min_advances:
  assumes "0 \<le> tol" and "\<exists>p\<in>set ps. candidate cl p"
    and "by_height_body tol ps cl n = Inr (cl', g)"
  shows "cl (fst (find_min_plane cl ps (QUuid, 0, 0))) < cl' (fst (find_min_plane cl ps (QUuid, 0, 0)))"
proof -
  from by_height_body_min_part[OF assms(2)] obtain p where p: "p \<in> set ps" "candidate cl p"
    and m: "find_min_plane cl ps (QUuid, 0, 0) = (getId p, current_plane cl p, current_dist cl p)"
    by blast
  have "group_with_min_plane tol (current_plane cl p) ps (cl, GlobalLayer_create n) = Inr (cl', g)"
    using assms(3) m by (simp add: by_height_body_def)
  from group_with_min_plane_advances[OF this p isEqual_refl[OF assms(1)]] show ?thesis
    by (simp add: m)
qed

lemma by_height_result:
  assumes "distinct (map getId ps)" and "0 \<le> tol"
  shows "\<exists>layers. by_height tol ps = Some (Inr layers)
           \<and> layers \<noteq> []
           \<and> map layer_index layers = [0..<length layers]
           \<and> (\<forall>p\<in>set ps. steps_of_part_in (getId p) layers = m_step_pairs p)
           \<and> (\<forall>e\<in>set (all_step_pairs layers). fst e \<in> getId ` set ps)
           \<and> ((\<exists>p\<in>set ps. 0 < countStepPairs p) \<longrightarrow> (\<forall>g\<in>set layers. getStepPairs g \<noteq> []))"
  using by_height_loop_result[OF assms, of "\<lambda>part_id. 0" 0 "[]"]
  by (simp add: by_height_def candidate_def)

lemma by_height_body_grouping:
  assumes "distinct (map getId ps)" and "\<exists>p\<in>set ps. candidate cl p"
  shows "\<exists>cl' g r. by_height_body tol ps cl n = Inr (cl', g)
           \<and> r \<in> set ps \<and> candidate cl r
           \<and> find_min_plane cl ps (QUuid, 0, 0) = (getId r, current_plane cl r, current_dist cl r)
           \<and> (\<forall>p\<in>set ps. (getId p, current_step_pair cl p) \<in> set (getStepPairs g)
                  \<longleftrightarrow> candidate cl p \<and> \<bar>current_dist cl p - current_dist cl r\<bar> \<le> tol)"
proof -
  from by_height_body_min_part[OF assms(2)] obtain r where r: "r \<in> set ps" "candidate cl r"
    and m: "find_min_plane cl ps (QUuid, 0, 0) = (getId r, current_plane cl r, current_dist cl r)"
    by blast
  define M where "M = grouped tol (current_plane cl r) cl ps"
  define cl' where "cl' = (\<lambda>k. if k \<in> getId ` set M then Suc (cl k) else cl k)"
  define g where "g = \<lparr>layer_index = n, getStepPairs = map (\<lambda>p. (getId p, current_step_pair cl p)) M\<rparr>"
  have b: "by_height_body tol ps cl n = Inr (cl', g)"
    using by_height_body_result[OF assms(1), of tol cl n] by (simp add: M_def cl'_def g_def m)
  have sub: "set M \<subseteq> set ps"
    unfolding M_def by (rule grouped_subset)
  have "(getId p, current_step_pair cl p) \<in> set (getStepPairs g)
          \<longleftrightarrow> candidate cl p \<and> \<bar>current_dist cl p - current_dist cl r\<bar> \<le> tol" if "p \<in> set ps" for p
  proof -
    have "(getId p, current_step_pair cl p) \<in> set (getStepPairs g) \<longleftrightarrow> p \<in> set M"
      using entry_in_grouped_layer[OF assms(1) that sub] by (simp add: g_def)
    also have "\<dots> \<longleftrightarrow> candidate cl p \<and> \<bar>current_dist cl p - current_dist cl r\<bar> \<le> tol"
      using that by (simp add: M_def grouped_def isEqual_def current_dist_def
          linePlaneIntersection_distance_def)
    finally show ?thesis .
  qed
  then show ?thesis using b r m by blast
qed

section \<open>Schedules seen from one part\<close>

lemma step_pairs_by_index:
  "map (getStepPair p) [0..<countStepPairs p] = m_step_pairs p"
  unfolding countStepPairs_def
  by (rule nth_equalityI) (simp_all add: getStepPair_def)

lemma available_step_pairs_Cons:
  "available_step_pairs (p # ps) =
     map (\<lambda>i. (getId p, getStepPair p i)) [0..<countStepPairs p] @ available_step_pairs ps"
  by (simp add: available_step_pairs_def)

lemma filter_other_key:
  "k \<noteq> k' \<Longrightarrow> filter (\<lambda>e. fst e = k) (filter (\<lambda>e. fst e \<noteq> k') es) = filter (\<lambda>e. fst e = k) es"
  by (induction es) auto

lemma same_key_entries:
  "filter (\<lambda>e. fst e = k) es = map (Pair k) (map snd (filter (\<lambda>e. fst e = k) es))"
  by (induction es) auto

lemma mset_of_part_sequences:
  fixes es :: "(quuid \<times> step_pair) list"
  assumes "distinct (map getId ps)"
    and "\<forall>p\<in>set ps. map snd (filter (\<lambda>e. fst e = getId p) es)
                        = map (getStepPair p) [0..<countStepPairs p]"
    and "\<forall>e\<in>set es. fst e \<in> getId ` set ps"
  shows "mset es = mset (available_step_pairs ps)"
  using assms
proof (induction ps arbitrary: es)
  case Nil
  then have "es = []" by (cases es) auto
  then show ?case by (simp add: available_step_pairs_def)
next
  case (Cons p ps)
  let ?own = "filter (\<lambda>e. fst e = getId p) es" and ?rest = "filter (\<lambda>e. fst e \<noteq> getId p) es"
  have own: "?own = map (\<lambda>i. (getId p, getStepPair p i)) [0..<countStepPairs p]"
  proof -
    have "?own = map (Pair (getId p)) (map snd ?own)" by (rule same_key_entries)
    also have "map snd ?own = map (getStepPair p) [0..<countStepPairs p]"
      using Cons.prems(2) by simp
    finally show ?thesis by simp
  qed
  have d: "distinct (map getId ps)" and np: "getId p \<notin> getId ` set ps"
    using Cons.prems(1) by auto
  have "\<forall>q\<in>set ps. map snd (filter (\<lambda>e. fst e = getId q) ?rest)
                        = map (getStepPair q) [0..<countStepPairs q]"
  proof
    fix q assume q: "q \<in> set ps"
    then have "getId q \<noteq> getId p" using np by (metis imageI)
    from filter_other_key[OF this, of es] Cons.prems(2) q
    show "map snd (filter (\<lambda>e. fst e = getId q) ?rest) = map (getStepPair q) [0..<countStepPairs q]"
      by simp
  qed
  moreover have "\<forall>e\<in>set ?rest. fst e \<in> getId ` set ps"
    using Cons.prems(3) by auto
  ultimately have rest: "mset ?rest = mset (available_step_pairs ps)"
    using Cons.IH[OF d] by blast
  have "mset es = mset ?own + mset ?rest"
    using multiset_partition[of "mset es" "\<lambda>e. fst e = getId p"] by simp
  then show ?case
    unfolding rest own available_step_pairs_Cons by simp
qed

text \<open>The by-layer-number schedule, seen from one part.\<close>

lemma concat_up_to_count:
  "concat (map (\<lambda>i. if i < c then [x i] else []) [0..<m]) = map x [0..<min c m]"
proof (induction m)
  case 0
  then show ?case by simp
next
  case (Suc m)
  show ?case
  proof (cases "m < c")
    case True
    then have "min c (Suc m) = Suc m" "min c m = m" by simp_all
    then show ?thesis using Suc True by simp
  next
    case False
    then have "min c (Suc m) = c" "min c m = c" by simp_all
    then show ?thesis using Suc False by simp
  qed
qed

lemma layer_entries_of_part:
  assumes "distinct (map getId ps)" and "p \<in> set ps"
  shows "filter (\<lambda>e. fst e = getId p) (map (\<lambda>q. (getId q, f q)) (filter P ps))
         = (if P p then [(getId p, f p)] else [])"
proof (cases "P p")
  case True
  have "distinct (map getId (filter P ps))"
    using assms(1) by (simp add: distinct_map_filter)
  moreover have "p \<in> set (filter P ps)" using True assms(2) by simp
  ultimately show ?thesis using True by (simp add: filter_key_present)
next
  case False
  have "getId p \<notin> getId ` set (filter P ps)"
    using distinct_ids_mem[OF assms, of "filter P ps"] False by simp
  then show ?thesis using False by (simp add: filter_key_absent)
qed

lemma by_layer_number_part_sequence:
  assumes "distinct (map getId ps)" and "p \<in> set ps" and "countStepPairs p \<le> m"
  shows "steps_of_part_in (getId p)
           (map (\<lambda>i. \<lparr>layer_index = i, getStepPairs =
                    map (\<lambda>q. (getId q, getStepPair q i)) (filter (\<lambda>q. i < countStepPairs q) ps)\<rparr>)
              [0..<m])
         = map (getStepPair p) [0..<countStepPairs p]"
proof -
  have "steps_of_part_in (getId p)
           (map (\<lambda>i. \<lparr>layer_index = i, getStepPairs =
                    map (\<lambda>q. (getId q, getStepPair q i)) (filter (\<lambda>q. i < countStepPairs q) ps)\<rparr>)
              [0..<m])
        = concat (map (\<lambda>i. map snd (filter (\<lambda>e. fst e = getId p)
                  (map (\<lambda>q. (getId q, getStepPair q i)) (filter (\<lambda>q. i < countStepPairs q) ps))))
              [0..<m])"
    by (simp add: steps_of_part_in_def all_step_pairs_def filter_concat map_concat comp_def)
  also have "\<dots> = concat (map (\<lambda>i. if i < countStepPairs p then [getStepPair p i] else []) [0..<m])"
    unfolding layer_entries_of_part[OF assms(1,2)]
    by (intro arg_cong[where f = concat] map_cong) auto
  also have "\<dots> = map (getStepPair p) [0..<countStepPairs p]"
    using assms(3) by (simp add: concat_up_to_count min_absorb1)
  finally show ?thesis .
qed

lemma by_layer_number_keys:
  "\<forall>e\<in>set (all_step_pairs
           (map (\<lambda>i. \<lparr>layer_index = i, getStepPairs =
                    map (\<lambda>q. (getId q, getStepPair q i)) (filter (\<lambda>q. i < countStepPairs q) ps)\<rparr>)
              [0..<m])). fst e \<in> getId ` set ps"
  by (auto simp: all_step_pairs_def)

text \<open>The by-part schedule holds the available step pairs in their own order.\<close>

lemma concat_singletons: "concat (map (\<lambda>i. [x i]) xs) = map x xs"
  by (induction xs) auto

lemma concat_runs_of_singletons:
  "concat (concat (map (\<lambda>p. map (\<lambda>i. [(getId p, getStepPair p i)]) [0..<countStepPairs p]) ps))
   = available_step_pairs ps"
  by (induction ps) (simp_all add: available_step_pairs_def concat_singletons)

lemma available_step_pairs_of_part:
  assumes "distinct (map getId ps)" and "p \<in> set ps"
  shows "map snd (filter (\<lambda>e. fst e = getId p) (available_step_pairs ps))
         = map (getStepPair p) [0..<countStepPairs p]"
  using assms
proof (induction ps)
  case Nil
  then show ?case by simp
next
  case (Cons q ps)
  have own: "filter (\<lambda>e. fst e = getId q) (map (\<lambda>i. (getId q, getStepPair q i)) xs)
             = map (\<lambda>i. (getId q, getStepPair q i)) xs" for xs
    by (induction xs) auto
  have other: "filter (\<lambda>e. fst e = k) (map (\<lambda>i. (getId q, getStepPair q i)) xs) = []"
    if "k \<noteq> getId q" for k xs
    using that by (induction xs) auto
  show ?case
  proof (cases "p = q")
    case True
    have "getId q \<notin> fst ` set (available_step_pairs ps)"
      using Cons.prems(1) by (auto simp: available_step_pairs_def)
    then have "filter (\<lambda>e. fst e = getId q) (available_step_pairs ps) = []"
      unfolding filter_empty_conv by (metis imageI)
    then show ?thesis
      using True by (simp add: available_step_pairs_Cons own comp_def)
  next
    case False
    then have p: "p \<in> set ps" using Cons.prems(2) by simp
    moreover have "getId q \<notin> getId ` set ps" using Cons.prems(1) by simp
    ultimately have "getId p \<noteq> getId q" by (metis imageI)
    from other[OF this] Cons.IH p Cons.prems(1) show ?thesis
      by (simp add: available_step_pairs_Cons)
  qed
qed

section \<open>The by-part policy\<close>

text \<open>
  Claim C6. Under the by-part policy, for every parts list, the number of returned layers
  is the sum of the step counts of the parts; every layer holds exactly one step pair of
  one part; the layers of a part form a contiguous run, the runs follow the order of the
  parts in the input list, the steps in a run follow the part's own index order; and the
  sequence indices are consecutive from 0.
\<close>

theorem by_part_schedule:
  assumes "kLayerOrdering global_sb = kByPart"
  shows "\<exists>global_layers.
           populateSteps qt_no_debug global_sb build_parts = Some (Inr global_layers)
         \<and> length global_layers = sum_list (map countStepPairs build_parts)
         \<and> map layer_index global_layers = [0..<length global_layers]
         \<and> map getStepPairs global_layers =
             concat (map (\<lambda>p. map (\<lambda>s. [(getId p, getStepPair p s)]) [0..<countStepPairs p])
                       build_parts)"
  using assms by_part_result[of build_parts] by (simp add: populateSteps_def)

theorem by_part_schedule_witness:
  "kLayerOrdering (settings_of kByPart 0) = kByPart
   \<and> (\<exists>global_layers.
         populateSteps False (settings_of kByPart 0) [part_A, part_B] = Some (Inr global_layers)
       \<and> length global_layers = 5
       \<and> map layer_index global_layers = [0, 1, 2, 3, 4]
       \<and> map getStepPairs global_layers =
             [ [(1, step_at 0)], [(1, step_at 1)], [(1, step_at 2)], [(2, step_at 0)], [(2, step_at 2)] ])"
proof -
  have h: "kLayerOrdering (settings_of kByPart 0) = kByPart"
    by (simp add: settings_of_def)
  have n: "sum_list (map countStepPairs [part_A, part_B]) = 5"
    by (simp add: countStepPairs_def part_A_def part_B_def)
  have u: "[0..<5] = [0, 1, 2, 3, 4::nat]"
    by code_simp
  have c: "concat (map (\<lambda>p. map (\<lambda>s. [(getId p, getStepPair p s)]) [0..<countStepPairs p])
                     [part_A, part_B])
           = [ [(1, step_at 0)], [(1, step_at 1)], [(1, step_at 2)], [(2, step_at 0)], [(2, step_at 2)] ]"
    by code_simp
  from by_part_schedule[OF h, of False "[part_A, part_B]"] h show ?thesis
    unfolding n c by (auto simp: u)
qed

section \<open>The by-layer-number policy\<close>

text \<open>
  Claim C5. Under the by-layer-number policy, for every list of parts with different
  ids, the schedule has as many layers as the maximum of the step counts of the parts
  (none for no parts); the layer at position \<open>i\<close> has sequence index \<open>i\<close> and holds
  exactly the step pair at index \<open>i\<close> of every part that has more than \<open>i\<close> step pairs.
\<close>

theorem by_layer_number_schedule:
  assumes "kLayerOrdering global_sb = kByLayerNumber" and "distinct (map getId build_parts)"
  shows "populateSteps qt_no_debug global_sb build_parts =
           Some (Inr (map (\<lambda>i. \<lparr>layer_index = i, getStepPairs =
                              map (\<lambda>p. (getId p, getStepPair p i))
                                (filter (\<lambda>p. i < countStepPairs p) build_parts)\<rparr>)
                       [0..<Max (insert 0 (countStepPairs ` set build_parts))]))"
  using assms by_layer_number_result[OF assms(2)] by (simp add: populateSteps_def)

theorem by_layer_number_schedule_witness:
  "kLayerOrdering (settings_of kByLayerNumber 0) = kByLayerNumber
   \<and> distinct (map getId [part_A, part_B])
   \<and> populateSteps False (settings_of kByLayerNumber 0) [part_A, part_B] =
       Some (Inr [\<lparr>layer_index = 0, getStepPairs = [(1, step_at 0), (2, step_at 0)]\<rparr>,
                  \<lparr>layer_index = 1, getStepPairs = [(1, step_at 1), (2, step_at 2)]\<rparr>,
                  \<lparr>layer_index = 2, getStepPairs = [(1, step_at 2)]\<rparr>])"
proof -
  have h: "kLayerOrdering (settings_of kByLayerNumber 0) = kByLayerNumber"
    by (simp add: settings_of_def)
  have d: "distinct (map getId [part_A, part_B])"
    by (simp add: part_A_def part_B_def)
  have c: "map (\<lambda>i. \<lparr>layer_index = i, getStepPairs =
                              map (\<lambda>p. (getId p, getStepPair p i))
                                (filter (\<lambda>p. i < countStepPairs p) [part_A, part_B])\<rparr>)
                       [0..<Max (insert 0 (countStepPairs ` set [part_A, part_B]))]
         = [\<lparr>layer_index = 0, getStepPairs = [(1, step_at 0), (2, step_at 0)]\<rparr>,
            \<lparr>layer_index = 1, getStepPairs = [(1, step_at 1), (2, step_at 2)]\<rparr>,
            \<lparr>layer_index = 2, getStepPairs = [(1, step_at 2)]\<rparr>]"
    by code_simp
  from by_layer_number_schedule[OF h d, of False] h d show ?thesis
    unfolding c by simp
qed

section \<open>The incremental mode\<close>

text \<open>
  Claim C7, as stated: for every parts list, \<open>populateStep\<close> returns one global layer
  whose entries are exactly the dirty step pairs of all parts. This fails for a part
  that reports two dirty step pairs: the second \<open>addStepPair\<close> for that part violates
  the precondition, and no layer is returned.
\<close>

theorem populateStep_two_dirty_counterexample:
  "dirty_step_pairs [part_two_dirty] = [(4, step_at 0), (4, step_at 1)]
   \<and> populateStep [part_two_dirty] = Inl PreconditionViolation
   \<and> \<not> (\<exists>g. populateStep [part_two_dirty] = Inr g
              \<and> getStepPairs g = dirty_step_pairs [part_two_dirty])"
proof -
  have a: "dirty_step_pairs [part_two_dirty] = [(4, step_at 0), (4, step_at 1)]"
    by (simp add: dirty_step_pairs_def part_two_dirty_def)
  have b: "populateStep [part_two_dirty] = Inl PreconditionViolation"
    by (simp add: populateStep_def part_two_dirty_def addStepPair_def GlobalLayer_create_def)
  show ?thesis using a b by simp
qed

text \<open>
  Claim C7, amended. \<open>populateStep\<close> returns one global layer with sequence index 0
  whose entries are exactly the dirty step pairs of all parts, in the order of the parts,
  when no part id occurs twice among the dirty step pairs (every part reports at most one
  dirty step pair, and the parts that report one have different ids); otherwise the
  precondition of \<open>addStepPair\<close> is violated and no layer is returned. A part without
  dirty steps adds nothing, and an empty parts list gives a layer with an empty mapping.
\<close>

theorem populateStep_result:
  "populateStep build_parts =
     (if distinct (map fst (dirty_step_pairs build_parts))
      then Inr \<lparr>layer_index = 0, getStepPairs = dirty_step_pairs build_parts\<rparr>
      else Inl PreconditionViolation)
   \<and> dirty_step_pairs (build_parts @ [p\<lparr>getDirtyStepPairs := []\<rparr>]) = dirty_step_pairs build_parts
   \<and> populateStep [] = Inr \<lparr>layer_index = 0, getStepPairs = []\<rparr>"
  using populateStep_cases[of build_parts] populateStep_cases[of "[]"]
  by (simp add: dirty_step_pairs_def)

theorem populateStep_result_witness:
  "distinct (map fst (dirty_step_pairs [part_A, part_B]))
   \<and> populateStep [part_A, part_B] = Inr \<lparr>layer_index = 0, getStepPairs = [(2, step_at 2)]\<rparr>"
proof -
  have d: "dirty_step_pairs [part_A, part_B] = [(2, step_at 2)]"
    by (simp add: dirty_step_pairs_def part_A_def part_B_def)
  from populateStep_result[of "[part_A, part_B]"] show ?thesis
    unfolding d by simp
qed

section \<open>Properties of both modes and of degenerate inputs\<close>

text \<open>
  Claim C2. Every global layer produced by \<open>populateStep\<close> or by \<open>populateSteps\<close> maps
  each part id to at most one step pair: the keys of its entries are pairwise different.
  In particular, for a parts list in which some part has two or more dirty step pairs,
  \<open>populateStep\<close> returns no layer at all, so it never returns a layer with two entries
  for that part.
\<close>

theorem one_step_pair_per_part:
  "(populateStep build_parts = Inr g \<longrightarrow> distinct (map fst (getStepPairs g)))
   \<and> (populateSteps qt_no_debug global_sb build_parts = Some (Inr global_layers) \<longrightarrow>
        (\<forall>g\<in>set global_layers. distinct (map fst (getStepPairs g))))
   \<and> (p \<in> set build_parts \<and> 2 \<le> length (getDirtyStepPairs p) \<longrightarrow>
        populateStep build_parts = Inl PreconditionViolation)"
  using populateStep_distinct[of build_parts g]
    populateSteps_distinct[of qt_no_debug global_sb build_parts global_layers]
    populateStep_parts_two_dirty[of p build_parts "GlobalLayer_create 0"]
  by (simp add: populateStep_def)

theorem one_step_pair_per_part_witness:
  "populateStep [part_A, part_B] = Inr \<lparr>layer_index = 0, getStepPairs = [(2, step_at 2)]\<rparr>
   \<and> distinct (map fst (getStepPairs \<lparr>layer_index = 0, getStepPairs = [(2, step_at 2)]\<rparr>))
   \<and> populateSteps False (settings_of kByHeight 0) [part_A, part_B] =
        Some (Inr [\<lparr>layer_index = 0, getStepPairs = [(1, step_at 0), (2, step_at 0)]\<rparr>,
                   \<lparr>layer_index = 1, getStepPairs = [(1, step_at 1)]\<rparr>,
                   \<lparr>layer_index = 2, getStepPairs = [(1, step_at 2), (2, step_at 2)]\<rparr>])
   \<and> list_all (\<lambda>g. distinct (map fst (getStepPairs g)))
         [\<lparr>layer_index = 0, getStepPairs = [(1, step_at 0), (2, step_at 0)]\<rparr>,
          \<lparr>layer_index = 1, getStepPairs = [(1, step_at 1)]\<rparr>,
          \<lparr>layer_index = 2, getStepPairs = [(1, step_at 2), (2, step_at 2)]\<rparr>]
   \<and> part_two_dirty \<in> set [part_A, part_two_dirty]
   \<and> 2 \<le> length (getDirtyStepPairs part_two_dirty)
   \<and> populateStep [part_A, part_two_dirty] = Inl PreconditionViolation"
proof -
  have a: "populateStep [part_A, part_B] = Inr \<lparr>layer_index = 0, getStepPairs = [(2, step_at 2)]\<rparr>"
    by code_simp
  have b: "populateSteps False (settings_of kByHeight 0) [part_A, part_B] =
        Some (Inr [\<lparr>layer_index = 0, getStepPairs = [(1, step_at 0), (2, step_at 0)]\<rparr>,
                   \<lparr>layer_index = 1, getStepPairs = [(1, step_at 1)]\<rparr>,
                   \<lparr>layer_index = 2, getStepPairs = [(1, step_at 2), (2, step_at 2)]\<rparr>])"
    by code_simp
  have c: "part_two_dirty \<in> set [part_A, part_two_dirty]"
    and d: "2 \<le> length (getDirtyStepPairs part_two_dirty)"
    by (simp_all add: part_two_dirty_def)
  from one_step_pair_per_part[of "[part_A, part_B]" "\<lparr>layer_index = 0, getStepPairs = [(2, step_at 2)]\<rparr>"
      False "settings_of kByHeight 0"
      "[\<lparr>layer_index = 0, getStepPairs = [(1, step_at 0), (2, step_at 0)]\<rparr>,
        \<lparr>layer_index = 1, getStepPairs = [(1, step_at 1)]\<rparr>,
        \<lparr>layer_index = 2, getStepPairs = [(1, step_at 2), (2, step_at 2)]\<rparr>]"] a b
  have 1: "distinct (map fst (getStepPairs \<lparr>layer_index = 0, getStepPairs = [(2, step_at 2)]\<rparr>))"
    and 2: "list_all (\<lambda>g. distinct (map fst (getStepPairs g)))
         [\<lparr>layer_index = 0, getStepPairs = [(1, step_at 0), (2, step_at 0)]\<rparr>,
          \<lparr>layer_index = 1, getStepPairs = [(1, step_at 1)]\<rparr>,
          \<lparr>layer_index = 2, getStepPairs = [(1, step_at 2), (2, step_at 2)]\<rparr>]"
    by (simp_all add: list_all_iff)
  from one_step_pair_per_part[of "[part_A, part_two_dirty]" _ _ _ _ part_two_dirty] c d
  have 3: "populateStep [part_A, part_two_dirty] = Inl PreconditionViolation"
    by blast
  show ?thesis using a b c d 1 2 3 by blast
qed

text \<open>
  Claim C3 says that \<open>populateSteps\<close> with zero parts returns an empty list of global
  layers under every recognized policy. Under the by-height policy the loop body runs once
  before \<^verbatim>\<open>steps_left\<close> is first computed, so for zero parts, and for parts without steps,
  the result is a list with one global layer that has sequence index 0 and no entries.
  Under the two other policies the result is the empty list.
\<close>

theorem by_height_without_steps:
  "populateSteps qt_no_debug (settings_of kByHeight tol) [] =
     Some (Inr [\<lparr>layer_index = 0, getStepPairs = []\<rparr>])
   \<and> populateSteps qt_no_debug (settings_of kByHeight tol)
       [\<lparr>getId = 1, m_step_pairs = [], getDirtyStepPairs = []\<rparr>] =
     Some (Inr [\<lparr>layer_index = 0, getStepPairs = []\<rparr>])
   \<and> populateSteps qt_no_debug (settings_of kByLayerNumber tol) [] = Some (Inr [])
   \<and> populateSteps qt_no_debug (settings_of kByPart tol) [] = Some (Inr [])"
  by (simp add: populateSteps_def settings_of_def by_height_def by_height_loop.simps
      by_height_body_def steps_left_def GlobalLayer_create_def QUuid_def countStepPairs_def
      by_layer_number_def max_steps_by_layer_number_def by_layer_number_loop.simps by_part_def)

text \<open>The last branch of the dispatch, for both build modes.\<close>

lemma unrecognized_policy_cases:
  assumes "kLayerOrdering global_sb \<notin> {kByHeight, kByLayerNumber, kByPart}"
  shows "populateSteps qt_no_debug global_sb build_parts =
           (if qt_no_debug then Some (Inr []) else Some (Inl AssertionFailure))"
  using assms by (simp add: populateSteps_def Q_ASSERT_def)

text \<open>
  Claim C9. An ordering policy that is none of by-height, by-layer-number and by-part must
  make \<open>populateSteps\<close> abort on a fatal assertion before any scheduling work, and never
  return a schedule. The source states this with \<^verbatim>\<open>Q_ASSERT(false)\<close> in its last branch. In
  a build with assertions the call aborts there. With \<^verbatim>\<open>QT_NO_DEBUG\<close> defined the assertion
  is compiled out, control falls through to the common \<^verbatim>\<open>return global_layers\<close>, and the
  call returns the empty schedule as an ordinary result: the code misses what its own
  assertion states.
\<close>

theorem unrecognized_policy_release_build:
  "populateSteps True (settings_of (kUnrecognized 7) 0) [part_A, part_B] = Some (Inr [])
   \<and> populateSteps False (settings_of (kUnrecognized 7) 0) [part_A, part_B]
       = Some (Inl AssertionFailure)"
  by (simp add: unrecognized_policy_cases settings_of_def)

section \<open>Properties of the by-height policy\<close>

text \<open>With a negative tolerance no plane is equal to itself: one part with one step keeps
  its cursor, the new layer stays empty, and the loop never ends.\<close>

lemma by_height_body_negative_tolerance:
  "by_height_body (- 1) [part_low] (\<lambda>part_id. 0) n
     = Inr (\<lambda>part_id. 0, \<lparr>layer_index = n, getStepPairs = []\<rparr>)"
  by (simp add: by_height_body_def part_low_def countStepPairs_def getStepPair_def
      shifted_layer_plane_def shiftAlongNormal_def linePlaneIntersection_distance_def
      isEqual_def isNull_def QUuid_def step_at_def GlobalLayer_create_def)

lemma steps_left_part_low: "steps_left (\<lambda>part_id. 0) [part_low]"
  by (simp add: steps_left_def part_low_def countStepPairs_def)

lemma by_height_loop_negative_tolerance_aux:
  assumes "by_height_loop tol ps cl n gl = Some r"
  shows "\<not> (tol = - 1 \<and> ps = [part_low] \<and> cl = (\<lambda>part_id. 0))"
proof (rule by_height_loop.raw_induct[OF _ assms], goal_cases)
  case (1 loop tol ps cl n gl r)
  note IH = 1(1) and eq = 1(2)
  show ?case
  proof
    assume a: "tol = - 1 \<and> ps = [part_low] \<and> cl = (\<lambda>part_id. 0)"
    then have "loop tol ps cl (Suc n) (gl @ [\<lparr>layer_index = n, getStepPairs = []\<rparr>]) = Some r"
      using eq by (simp add: by_height_body_negative_tolerance steps_left_part_low)
    from IH[OF this] a show False by simp
  qed
qed

lemma by_height_loop_negative_tolerance:
  "by_height_loop (- 1) [part_low] (\<lambda>part_id. 0) n gl = None"
proof (cases "by_height_loop (- 1) [part_low] (\<lambda>part_id. 0) n gl")
  case None
  then show ?thesis .
next
  case (Some r)
  from by_height_loop_negative_tolerance_aux[OF this] show ?thesis by simp
qed

text \<open>
  Claim C8, as stated: the by-height loop terminates for every finite parts list, because
  the plane of the part that produced the minimum matches itself under the tolerance
  test. The tolerance is read from the settings and is not checked. With the tolerance
  \<open>-1\<close> and one part that has one step, the plane of that part does not match itself, the
  cursor does not move, one step stays unscheduled, and \<open>populateSteps\<close> does not return.
\<close>

theorem by_height_negative_tolerance_counterexample:
  "populateSteps False (settings_of kByHeight (- 1)) [part_low] = None
   \<and> remaining_steps (\<lambda>part_id. 0) [part_low] = 1
   \<and> \<not> (\<exists>r. populateSteps False (settings_of kByHeight (- 1)) [part_low] = Some r)"
proof -
  have a: "populateSteps False (settings_of kByHeight (- 1)) [part_low] = None"
    by (simp add: populateSteps_def settings_of_def by_height_def
        by_height_loop_negative_tolerance)
  have b: "remaining_steps (\<lambda>part_id. 0) [part_low] = 1"
    by (simp add: remaining_steps_def part_low_def countStepPairs_def)
  show ?thesis using a b by simp
qed

text \<open>
  Claim C8, amended. For a grouping tolerance that is not negative, the by-height loop
  terminates for every finite parts list: \<open>populateSteps\<close> returns, and it returns a
  schedule when the part ids are pairwise different. In every run of the loop body that
  starts with a candidate and completes, the cursor of the part found by the minimum
  search has advanced (its plane matches itself under the tolerance test), and the number
  of steps not yet scheduled has become strictly smaller.
\<close>

theorem by_height_terminates:
  assumes "kLayerOrdering global_sb = kByHeight" and "0 \<le> kLayerGroupingTolerance global_sb"
  shows "(\<exists>r. populateSteps qt_no_debug global_sb build_parts = Some r)
       \<and> (distinct (map getId build_parts) \<longrightarrow>
            (\<exists>global_layers. populateSteps qt_no_debug global_sb build_parts = Some (Inr global_layers)))
       \<and> ((\<exists>p\<in>set build_parts. candidate current_layer p)
            \<and> by_height_body (kLayerGroupingTolerance global_sb) build_parts current_layer n
                = Inr (current_layer', g) \<longrightarrow>
            current_layer (fst (find_min_plane current_layer build_parts (QUuid, 0, 0)))
              < current_layer' (fst (find_min_plane current_layer build_parts (QUuid, 0, 0)))
            \<and> remaining_steps current_layer' build_parts < remaining_steps current_layer build_parts)"
proof -
  have p: "populateSteps qt_no_debug global_sb build_parts
        = by_height_loop (kLayerGroupingTolerance global_sb) build_parts (\<lambda>part_id. 0) 0 []"
    using assms(1) by (simp add: populateSteps_def by_height_def)
  have 1: "\<exists>r. populateSteps qt_no_debug global_sb build_parts = Some r"
    unfolding p using assms(2) by (rule by_height_loop_terminates)
  have 2: "\<exists>global_layers. populateSteps qt_no_debug global_sb build_parts = Some (Inr global_layers)"
    if "distinct (map getId build_parts)"
    using by_height_loop_result[OF that assms(2), of "\<lambda>part_id. 0" 0 "[]"] unfolding p by auto
  have 3: "current_layer (fst (find_min_plane current_layer build_parts (QUuid, 0, 0)))
              < current_layer' (fst (find_min_plane current_layer build_parts (QUuid, 0, 0)))
            \<and> remaining_steps current_layer' build_parts < remaining_steps current_layer build_parts"
    if "\<exists>p\<in>set build_parts. candidate current_layer p"
      and "by_height_body (kLayerGroupingTolerance global_sb) build_parts current_layer n
                = Inr (current_layer', g)"
    using by_height_body_min_advances[OF assms(2) that] by_height_body_remaining[OF assms(2) that]
    by simp
  show ?thesis using 1 2 3 by blast
qed

theorem by_height_terminates_witness:
  "kLayerOrdering (settings_of kByHeight 0) = kByHeight
   \<and> 0 \<le> kLayerGroupingTolerance (settings_of kByHeight 0)
   \<and> distinct (map getId [part_A, part_B])
   \<and> (\<exists>global_layers. populateSteps False (settings_of kByHeight 0) [part_A, part_B]
          = Some (Inr global_layers))
   \<and> (\<exists>p\<in>set [part_A, part_B]. candidate (\<lambda>part_id. 0) p)
   \<and> by_height_body 0 [part_A, part_B] (\<lambda>part_id. 0) 0
       = Inr ((\<lambda>part_id. 0)(1 := 1, 2 := 1),
              \<lparr>layer_index = 0, getStepPairs = [(1, step_at 0), (2, step_at 0)]\<rparr>)
   \<and> fst (find_min_plane (\<lambda>part_id. 0) [part_A, part_B] (QUuid, 0, 0)) = 1
   \<and> remaining_steps ((\<lambda>part_id. 0)(1 := 1, 2 := 1)) [part_A, part_B] = 3
   \<and> remaining_steps (\<lambda>part_id. 0) [part_A, part_B] = 5"
proof -
  have h1: "kLayerOrdering (settings_of kByHeight 0) = kByHeight"
    and h2: "0 \<le> kLayerGroupingTolerance (settings_of kByHeight 0)"
    by (simp_all add: settings_of_def)
  have d: "distinct (map getId [part_A, part_B])"
    by (simp add: part_A_def part_B_def)
  have c: "\<exists>p\<in>set [part_A, part_B]. candidate (\<lambda>part_id. 0) p"
    by (simp add: candidate_def countStepPairs_def part_A_def)
  have b: "by_height_body 0 [part_A, part_B] (\<lambda>part_id. 0) 0
       = Inr ((\<lambda>part_id. 0)(1 := 1, 2 := 1),
              \<lparr>layer_index = 0, getStepPairs = [(1, step_at 0), (2, step_at 0)]\<rparr>)"
    by (simp add: by_height_body_def part_A_def part_B_def countStepPairs_def getStepPair_def
        shifted_layer_plane_def shiftAlongNormal_def linePlaneIntersection_distance_def
        isEqual_def isNull_def QUuid_def step_at_def addStepPair_def GlobalLayer_create_def)
  have m: "fst (find_min_plane (\<lambda>part_id. 0) [part_A, part_B] (QUuid, 0, 0)) = 1"
    by (simp add: part_A_def part_B_def countStepPairs_def getStepPair_def
        shifted_layer_plane_def shiftAlongNormal_def linePlaneIntersection_distance_def
        isNull_def QUuid_def step_at_def)
  have r1: "remaining_steps ((\<lambda>part_id. 0)(1 := 1, 2 := 1)) [part_A, part_B] = 3"
    and r0: "remaining_steps (\<lambda>part_id. 0) [part_A, part_B] = 5"
    by (simp_all add: remaining_steps_def part_A_def part_B_def countStepPairs_def)
  from by_height_terminates[OF h1 h2, of False "[part_A, part_B]" "\<lambda>part_id. 0" 0
      "(\<lambda>part_id. 0)(1 := 1, 2 := 1)"
      "\<lparr>layer_index = 0, getStepPairs = [(1, step_at 0), (2, step_at 0)]\<rparr>"] d
  have "\<exists>global_layers. populateSteps False (settings_of kByHeight 0) [part_A, part_B]
          = Some (Inr global_layers)"
    by blast
  then show ?thesis using h1 h2 d c b m r1 r0 by blast
qed

text \<open>
  Claim C10, as stated: under the by-height policy, every global layer created while some
  part still has an unscheduled step is not empty. With the tolerance \<open>-1\<close> and one part
  that has one step, the loop body starts with a candidate and creates a global layer
  without entries: the plane of the part does not match itself.
\<close>

theorem by_height_empty_layer_counterexample:
  "(\<exists>p\<in>set [part_low]. candidate (\<lambda>part_id. 0) p)
   \<and> by_height_body (- 1) [part_low] (\<lambda>part_id. 0) 0
       = Inr (\<lambda>part_id. 0, \<lparr>layer_index = 0, getStepPairs = []\<rparr>)
   \<and> getStepPairs \<lparr>layer_index = 0, getStepPairs = []\<rparr> = []"
proof -
  have a: "\<exists>p\<in>set [part_low]. candidate (\<lambda>part_id. 0) p"
    by (simp add: candidate_def part_low_def countStepPairs_def)
  show ?thesis using a by (simp add: by_height_body_negative_tolerance)
qed

text \<open>
  Claim C10, amended. Under the by-height policy, for parts with pairwise different ids and
  a tolerance that is not negative, a run of the loop body that starts while some part
  still has an unscheduled step creates a global layer that is not empty: it holds the
  current step pair of the part found by the minimum search, and when no part id is
  null that part has the least shifted-plane distance among the candidates. So when
  some part has a step, no layer of the returned schedule is empty.
\<close>

theorem by_height_layer_not_empty:
  assumes "distinct (map getId build_parts)" and "0 \<le> tol"
    and "\<exists>p\<in>set build_parts. candidate current_layer p"
  shows "(\<exists>current_layer' g p.
            by_height_body tol build_parts current_layer n = Inr (current_layer', g)
          \<and> p \<in> set build_parts \<and> candidate current_layer p
          \<and> fst (find_min_plane current_layer build_parts (QUuid, 0, 0)) = getId p
          \<and> ((\<forall>q\<in>set build_parts. \<not> isNull (getId q)) \<longrightarrow>
               (\<forall>q\<in>set build_parts. candidate current_layer q \<longrightarrow>
                  current_dist current_layer p \<le> current_dist current_layer q))
          \<and> (getId p, current_step_pair current_layer p) \<in> set (getStepPairs g)
          \<and> getStepPairs g \<noteq> [])
       \<and> ((\<exists>p\<in>set build_parts. 0 < countStepPairs p) \<longrightarrow>
            (\<exists>global_layers.
               populateSteps qt_no_debug (settings_of kByHeight tol) build_parts
                 = Some (Inr global_layers)
             \<and> (\<forall>g\<in>set global_layers. getStepPairs g \<noteq> [])))"
proof -
  from by_height_body_grouping[OF assms(1,3), of tol n] obtain cl' g r where
    b: "by_height_body tol build_parts current_layer n = Inr (cl', g)"
    and r: "r \<in> set build_parts" "candidate current_layer r"
    and m: "find_min_plane current_layer build_parts (QUuid, 0, 0)
              = (getId r, current_plane current_layer r, current_dist current_layer r)"
    and e: "\<forall>p\<in>set build_parts. (getId p, current_step_pair current_layer p) \<in> set (getStepPairs g)
                  \<longleftrightarrow> candidate current_layer p
                      \<and> \<bar>current_dist current_layer p - current_dist current_layer r\<bar> \<le> tol"
    by blast
  have i: "(getId r, current_step_pair current_layer r) \<in> set (getStepPairs g)"
    using e r assms(2) by simp
  then have ne: "getStepPairs g \<noteq> []" by auto
  have l: "\<forall>q\<in>set build_parts. candidate current_layer q \<longrightarrow>
                  current_dist current_layer r \<le> current_dist current_layer q"
    if "\<forall>q\<in>set build_parts. \<not> isNull (getId q)"
    using find_min_plane_least[OF that m] by simp
  have 1: "\<exists>current_layer' g p.
            by_height_body tol build_parts current_layer n = Inr (current_layer', g)
          \<and> p \<in> set build_parts \<and> candidate current_layer p
          \<and> fst (find_min_plane current_layer build_parts (QUuid, 0, 0)) = getId p
          \<and> ((\<forall>q\<in>set build_parts. \<not> isNull (getId q)) \<longrightarrow>
               (\<forall>q\<in>set build_parts. candidate current_layer q \<longrightarrow>
                  current_dist current_layer p \<le> current_dist current_layer q))
          \<and> (getId p, current_step_pair current_layer p) \<in> set (getStepPairs g)
          \<and> getStepPairs g \<noteq> []"
    using b r m i ne l by (intro exI[of _ cl'] exI[of _ g] exI[of _ r]) simp
  have 2: "\<exists>global_layers.
               populateSteps qt_no_debug (settings_of kByHeight tol) build_parts
                 = Some (Inr global_layers)
             \<and> (\<forall>g\<in>set global_layers. getStepPairs g \<noteq> [])"
    if "\<exists>p\<in>set build_parts. 0 < countStepPairs p"
    using by_height_result[OF assms(1,2)] that
    by (auto simp: populateSteps_def settings_of_def)
  show ?thesis using 1 2 by blast
qed

theorem by_height_layer_not_empty_witness:
  "distinct (map getId [part_A, part_B])
   \<and> (0::real) \<le> 0
   \<and> (\<exists>p\<in>set [part_A, part_B]. candidate (\<lambda>part_id. 0) p)
   \<and> (\<exists>p\<in>set [part_A, part_B]. 0 < countStepPairs p)
   \<and> by_height_body 0 [part_A, part_B] (\<lambda>part_id. 0) 0
       = Inr ((\<lambda>part_id. 0)(1 := 1, 2 := 1),
              \<lparr>layer_index = 0, getStepPairs = [(1, step_at 0), (2, step_at 0)]\<rparr>)
   \<and> fst (find_min_plane (\<lambda>part_id. 0) [part_A, part_B] (QUuid, 0, 0)) = getId part_A
   \<and> (\<exists>global_layers.
          populateSteps False (settings_of kByHeight 0) [part_A, part_B] = Some (Inr global_layers)
        \<and> (\<forall>g\<in>set global_layers. getStepPairs g \<noteq> []))"
proof -
  have d: "distinct (map getId [part_A, part_B])"
    by (simp add: part_A_def part_B_def)
  have t: "(0::real) \<le> 0" by simp
  have c: "\<exists>p\<in>set [part_A, part_B]. candidate (\<lambda>part_id. 0) p"
    by (simp add: candidate_def countStepPairs_def part_A_def)
  have s: "\<exists>p\<in>set [part_A, part_B]. 0 < countStepPairs p"
    by (simp add: countStepPairs_def part_A_def)
  have b: "by_height_body 0 [part_A, part_B] (\<lambda>part_id. 0) 0
       = Inr ((\<lambda>part_id. 0)(1 := 1, 2 := 1),
              \<lparr>layer_index = 0, getStepPairs = [(1, step_at 0), (2, step_at 0)]\<rparr>)"
    by (simp add: by_height_body_def part_A_def part_B_def countStepPairs_def getStepPair_def
        shifted_layer_plane_def shiftAlongNormal_def linePlaneIntersection_distance_def
        isEqual_def isNull_def QUuid_def step_at_def addStepPair_def GlobalLayer_create_def)
  have m: "fst (find_min_plane (\<lambda>part_id. 0) [part_A, part_B] (QUuid, 0, 0)) = getId part_A"
    by (simp add: part_A_def part_B_def countStepPairs_def getStepPair_def
        shifted_layer_plane_def shiftAlongNormal_def linePlaneIntersection_distance_def
        isNull_def QUuid_def step_at_def)
  from by_height_layer_not_empty[OF d t c, of 0 False] s
  have "\<exists>global_layers.
          populateSteps False (settings_of kByHeight 0) [part_A, part_B] = Some (Inr global_layers)
        \<and> (\<forall>g\<in>set global_layers. getStepPairs g \<noteq> [])"
    by blast
  then show ?thesis using d c s b m by simp
qed

text \<open>
  Claim C4, as stated: under the by-height policy, two current layers whose distances
  differ by less than the tolerance are placed in the same global layer. The grouping
  pass compares every current plane with the minimum plane only. With tolerance 2 and
  three parts whose current layers lie at the distances 0, 2 and 3, the layers at 2 and 3
  differ by less than the tolerance, but only the layer at 2 is within the tolerance of
  the minimum: the two are placed in different global layers.
\<close>

theorem by_height_grouping_counterexample:
  "\<bar>current_dist (\<lambda>part_id. 0) part_mid - current_dist (\<lambda>part_id. 0) part_high\<bar> < 2
   \<and> populateSteps False (settings_of kByHeight 2) [part_low, part_mid, part_high] =
       Some (Inr [\<lparr>layer_index = 0, getStepPairs = [(1, step_at 0), (2, step_at 2)]\<rparr>,
                  \<lparr>layer_index = 1, getStepPairs = [(3, step_at 3)]\<rparr>])
   \<and> current_step_pair (\<lambda>part_id. 0) part_mid = step_at 2
   \<and> current_step_pair (\<lambda>part_id. 0) part_high = step_at 3
   \<and> \<not> (\<exists>g. g \<in> set [\<lparr>layer_index = 0, getStepPairs = [(1, step_at 0), (2, step_at 2)]\<rparr>,
                        \<lparr>layer_index = 1, getStepPairs = [(3, step_at 3)]\<rparr>]
              \<and> (getId part_mid, step_at 2) \<in> set (getStepPairs g)
              \<and> (getId part_high, step_at 3) \<in> set (getStepPairs g))"
proof -
  have a: "\<bar>current_dist (\<lambda>part_id. 0) part_mid - current_dist (\<lambda>part_id. 0) part_high\<bar> < 2"
    by (simp add: current_dist_def current_plane_def current_step_pair_def getStepPair_def
        part_mid_def part_high_def step_at_def shifted_layer_plane_def shiftAlongNormal_def
        linePlaneIntersection_distance_def)
  have b: "populateSteps False (settings_of kByHeight 2) [part_low, part_mid, part_high] =
       Some (Inr [\<lparr>layer_index = 0, getStepPairs = [(1, step_at 0), (2, step_at 2)]\<rparr>,
                  \<lparr>layer_index = 1, getStepPairs = [(3, step_at 3)]\<rparr>])"
    by code_simp
  have c: "current_step_pair (\<lambda>part_id. 0) part_mid = step_at 2"
    "current_step_pair (\<lambda>part_id. 0) part_high = step_at 3"
    by (simp_all add: current_step_pair_def getStepPair_def part_mid_def part_high_def)
  have d: "\<not> (\<exists>g. g \<in> set [\<lparr>layer_index = 0, getStepPairs = [(1, step_at 0), (2, step_at 2)]\<rparr>,
                        \<lparr>layer_index = 1, getStepPairs = [(3, step_at 3)]\<rparr>]
              \<and> (getId part_mid, step_at 2) \<in> set (getStepPairs g)
              \<and> (getId part_high, step_at 3) \<in> set (getStepPairs g))"
    by (auto simp: part_mid_def part_high_def)
  show ?thesis using a b c d by blast
qed

text \<open>
  Claim C4, amended. Under the by-height policy, for parts with pairwise different ids
  none of which is null, in every run of the loop body that starts with a candidate: the
  current layer of a candidate part is placed in the new global layer exactly when its
  shifted-plane distance exceeds the least distance among the candidates by at most the
  tolerance (the boundary included); and any two current layers placed in the new global
  layer have distances that differ by at most the tolerance, so two current layers whose
  distances differ by strictly more than the tolerance are not both placed in it.
\<close>

theorem by_height_grouping:
  assumes "distinct (map getId build_parts)" and "\<forall>p\<in>set build_parts. \<not> isNull (getId p)"
    and "\<exists>p\<in>set build_parts. candidate current_layer p"
  shows "\<exists>current_layer' g min_dist.
           by_height_body tol build_parts current_layer n = Inr (current_layer', g)
         \<and> (\<exists>p\<in>set build_parts. candidate current_layer p \<and> current_dist current_layer p = min_dist)
         \<and> (\<forall>p\<in>set build_parts. candidate current_layer p \<longrightarrow> min_dist \<le> current_dist current_layer p)
         \<and> (\<forall>p\<in>set build_parts. candidate current_layer p \<longrightarrow>
               ((getId p, current_step_pair current_layer p) \<in> set (getStepPairs g)
                  \<longleftrightarrow> current_dist current_layer p - min_dist \<le> tol))
         \<and> (\<forall>p\<in>set build_parts. \<forall>q\<in>set build_parts.
               (getId p, current_step_pair current_layer p) \<in> set (getStepPairs g)
               \<and> (getId q, current_step_pair current_layer q) \<in> set (getStepPairs g)
               \<longrightarrow> \<bar>current_dist current_layer p - current_dist current_layer q\<bar> \<le> tol)"
proof -
  from by_height_body_grouping[OF assms(1,3), of tol n] obtain cl' g r where
    b: "by_height_body tol build_parts current_layer n = Inr (cl', g)"
    and r: "r \<in> set build_parts" "candidate current_layer r"
    and m: "find_min_plane current_layer build_parts (QUuid, 0, 0)
              = (getId r, current_plane current_layer r, current_dist current_layer r)"
    and e: "\<forall>p\<in>set build_parts. (getId p, current_step_pair current_layer p) \<in> set (getStepPairs g)
                  \<longleftrightarrow> candidate current_layer p
                      \<and> \<bar>current_dist current_layer p - current_dist current_layer r\<bar> \<le> tol"
    by blast
  let ?m = "current_dist current_layer r"
  have l: "\<forall>q\<in>set build_parts. candidate current_layer q \<longrightarrow> ?m \<le> current_dist current_layer q"
    using find_min_plane_least[OF assms(2) m] by simp
  have 1: "\<exists>p\<in>set build_parts. candidate current_layer p \<and> current_dist current_layer p = ?m"
    using r by blast
  have 2: "\<forall>p\<in>set build_parts. candidate current_layer p \<longrightarrow>
               ((getId p, current_step_pair current_layer p) \<in> set (getStepPairs g)
                  \<longleftrightarrow> current_dist current_layer p - ?m \<le> tol)"
  proof (intro ballI impI)
    fix p assume p: "p \<in> set build_parts" "candidate current_layer p"
    then have "?m \<le> current_dist current_layer p" using l by simp
    then have "\<bar>current_dist current_layer p - ?m\<bar> = current_dist current_layer p - ?m"
      by simp
    then show "(getId p, current_step_pair current_layer p) \<in> set (getStepPairs g)
                  \<longleftrightarrow> current_dist current_layer p - ?m \<le> tol"
      using e p by simp
  qed
  have 3: "\<forall>p\<in>set build_parts. \<forall>q\<in>set build_parts.
               (getId p, current_step_pair current_layer p) \<in> set (getStepPairs g)
               \<and> (getId q, current_step_pair current_layer q) \<in> set (getStepPairs g)
               \<longrightarrow> \<bar>current_dist current_layer p - current_dist current_layer q\<bar> \<le> tol"
  proof (intro ballI impI)
    fix p q assume p: "p \<in> set build_parts" and q: "q \<in> set build_parts"
      and i: "(getId p, current_step_pair current_layer p) \<in> set (getStepPairs g)
               \<and> (getId q, current_step_pair current_layer q) \<in> set (getStepPairs g)"
    have cp: "candidate current_layer p" "\<bar>current_dist current_layer p - ?m\<bar> \<le> tol"
      using e p i by auto
    have cq: "candidate current_layer q" "\<bar>current_dist current_layer q - ?m\<bar> \<le> tol"
      using e q i by auto
    have "?m \<le> current_dist current_layer p" "?m \<le> current_dist current_layer q"
      using l p q cp(1) cq(1) by auto
    then show "\<bar>current_dist current_layer p - current_dist current_layer q\<bar> \<le> tol"
      using cp(2) cq(2) by linarith
  qed
  show ?thesis
    using b 1 l 2 3 by (intro exI[of _ cl'] exI[of _ g] exI[of _ ?m]) simp
qed

theorem by_height_grouping_witness:
  "distinct (map getId [part_low, part_mid, part_high])
   \<and> \<not> (\<exists>p\<in>set [part_low, part_mid, part_high]. isNull (getId p))
   \<and> (\<exists>p\<in>set [part_low, part_mid, part_high]. candidate (\<lambda>part_id. 0) p)
   \<and> by_height_body 2 [part_low, part_mid, part_high] (\<lambda>part_id. 0) 0
       = Inr ((\<lambda>part_id. 0)(1 := 1, 2 := 1),
              \<lparr>layer_index = 0, getStepPairs = [(1, step_at 0), (2, step_at 2)]\<rparr>)
   \<and> (\<exists>current_layer' g min_dist.
         by_height_body 2 [part_low, part_mid, part_high] (\<lambda>part_id. 0) 0 = Inr (current_layer', g)
       \<and> (\<exists>p\<in>set [part_low, part_mid, part_high].
              candidate (\<lambda>part_id. 0) p \<and> current_dist (\<lambda>part_id. 0) p = min_dist)
       \<and> (\<forall>p\<in>set [part_low, part_mid, part_high]. candidate (\<lambda>part_id. 0) p \<longrightarrow>
               ((getId p, current_step_pair (\<lambda>part_id. 0) p) \<in> set (getStepPairs g)
                  \<longleftrightarrow> current_dist (\<lambda>part_id. 0) p - min_dist \<le> 2)))"
proof -
  have d: "distinct (map getId [part_low, part_mid, part_high])"
    by (simp add: part_low_def part_mid_def part_high_def)
  have n: "\<forall>p\<in>set [part_low, part_mid, part_high]. \<not> isNull (getId p)"
    by (simp add: part_low_def part_mid_def part_high_def isNull_def)
  have c: "\<exists>p\<in>set [part_low, part_mid, part_high]. candidate (\<lambda>part_id. 0) p"
    by (simp add: candidate_def countStepPairs_def part_low_def)
  have b: "by_height_body 2 [part_low, part_mid, part_high] (\<lambda>part_id. 0) 0
       = Inr ((\<lambda>part_id. 0)(1 := 1, 2 := 1),
              \<lparr>layer_index = 0, getStepPairs = [(1, step_at 0), (2, step_at 2)]\<rparr>)"
    by (simp add: by_height_body_def part_low_def part_mid_def part_high_def countStepPairs_def
        getStepPair_def shifted_layer_plane_def shiftAlongNormal_def
        linePlaneIntersection_distance_def isEqual_def isNull_def QUuid_def step_at_def
        addStepPair_def GlobalLayer_create_def)
  from by_height_grouping[OF d n c, of 2 0]
  have "\<exists>current_layer' g min_dist.
         by_height_body 2 [part_low, part_mid, part_high] (\<lambda>part_id. 0) 0 = Inr (current_layer', g)
       \<and> (\<exists>p\<in>set [part_low, part_mid, part_high].
              candidate (\<lambda>part_id. 0) p \<and> current_dist (\<lambda>part_id. 0) p = min_dist)
       \<and> (\<forall>p\<in>set [part_low, part_mid, part_high]. candidate (\<lambda>part_id. 0) p \<longrightarrow>
               ((getId p, current_step_pair (\<lambda>part_id. 0) p) \<in> set (getStepPairs g)
                  \<longleftrightarrow> current_dist (\<lambda>part_id. 0) p - min_dist \<le> 2))"
    by blast
  then show ?thesis using d n c b by blast
qed

section \<open>Completeness and order of the batch schedule\<close>

lemma by_layer_number_complete:
  assumes "distinct (map getId ps)"
  shows "\<exists>layers. by_layer_number ps = Inr layers
           \<and> (\<forall>p\<in>set ps. steps_of_part_in (getId p) layers = map (getStepPair p) [0..<countStepPairs p])
           \<and> (\<forall>e\<in>set (all_step_pairs layers). fst e \<in> getId ` set ps)"
proof -
  let ?m = "Max (insert 0 (countStepPairs ` set ps))"
  have "countStepPairs p \<le> ?m" if "p \<in> set ps" for p
    using that by (intro Max_ge) auto
  then show ?thesis
    using by_layer_number_result[OF assms] by_layer_number_part_sequence[OF assms]
      by_layer_number_keys[of ps ?m]
    by simp
qed

lemma by_part_complete:
  assumes "distinct (map getId ps)"
  shows "\<exists>layers. by_part ps = Inr layers
           \<and> (\<forall>p\<in>set ps. steps_of_part_in (getId p) layers = map (getStepPair p) [0..<countStepPairs p])
           \<and> (\<forall>e\<in>set (all_step_pairs layers). fst e \<in> getId ` set ps)"
proof -
  from by_part_result[of ps] obtain layers where r: "by_part ps = Inr layers"
    and m: "map getStepPairs layers =
            concat (map (\<lambda>p. map (\<lambda>i. [(getId p, getStepPair p i)]) [0..<countStepPairs p]) ps)"
    by blast
  have a: "all_step_pairs layers = available_step_pairs ps"
    unfolding all_step_pairs_def m by (rule concat_runs_of_singletons)
  have "\<forall>p\<in>set ps. steps_of_part_in (getId p) layers = map (getStepPair p) [0..<countStepPairs p]"
    unfolding steps_of_part_in_def a using available_step_pairs_of_part[OF assms] by simp
  moreover have "\<forall>e\<in>set (all_step_pairs layers). fst e \<in> getId ` set ps"
    unfolding a by (auto simp: available_step_pairs_def)
  ultimately show ?thesis using r by blast
qed

lemma by_height_complete:
  assumes "distinct (map getId ps)" and "0 \<le> tol"
  shows "\<exists>layers. by_height tol ps = Some (Inr layers)
           \<and> (\<forall>p\<in>set ps. steps_of_part_in (getId p) layers = map (getStepPair p) [0..<countStepPairs p])
           \<and> (\<forall>e\<in>set (all_step_pairs layers). fst e \<in> getId ` set ps)"
  using by_height_result[OF assms] unfolding step_pairs_by_index by blast

text \<open>
  Claim C1. For every list of parts with pairwise different ids and every recognized
  ordering policy (for by-height: with a grouping tolerance that is not negative),
  \<open>populateSteps\<close> returns a schedule whose entries, as a multiset of pairs of part id and
  step pair, are exactly the step pairs available from the parts: none is missing and none
  is duplicated. For each part, the step pairs that the successive global layers hold for
  it are the step pairs of the part at the indices 0, 1, ... up to its count, in this
  order.
\<close>

theorem populateSteps_complete_and_ordered:
  assumes "kLayerOrdering global_sb \<in> {kByHeight, kByLayerNumber, kByPart}"
    and "distinct (map getId build_parts)"
    and "kLayerOrdering global_sb = kByHeight \<longrightarrow> 0 \<le> kLayerGroupingTolerance global_sb"
  shows "\<exists>global_layers.
           populateSteps qt_no_debug global_sb build_parts = Some (Inr global_layers)
         \<and> mset (all_step_pairs global_layers) = mset (available_step_pairs build_parts)
         \<and> (\<forall>p\<in>set build_parts.
               steps_of_part_in (getId p) global_layers
                 = map (getStepPair p) [0..<countStepPairs p])"
proof -
  have "\<exists>global_layers.
           populateSteps qt_no_debug global_sb build_parts = Some (Inr global_layers)
         \<and> (\<forall>p\<in>set build_parts.
               steps_of_part_in (getId p) global_layers
                 = map (getStepPair p) [0..<countStepPairs p])
         \<and> (\<forall>e\<in>set (all_step_pairs global_layers). fst e \<in> getId ` set build_parts)"
  proof (cases "kLayerOrdering global_sb")
    case kByHeight
    then show ?thesis
      using by_height_complete[OF assms(2), of "kLayerGroupingTolerance global_sb"] assms(3)
      by (simp add: populateSteps_def)
  next
    case kByLayerNumber
    then show ?thesis
      using by_layer_number_complete[OF assms(2)] by (simp add: populateSteps_def)
  next
    case kByPart
    then show ?thesis
      using by_part_complete[OF assms(2)] by (simp add: populateSteps_def)
  next
    case (kUnrecognized v)
    then show ?thesis using assms(1) by simp
  qed
  then obtain global_layers where
    r: "populateSteps qt_no_debug global_sb build_parts = Some (Inr global_layers)"
    and s: "\<forall>p\<in>set build_parts.
               steps_of_part_in (getId p) global_layers
                 = map (getStepPair p) [0..<countStepPairs p]"
    and k: "\<forall>e\<in>set (all_step_pairs global_layers). fst e \<in> getId ` set build_parts"
    by blast
  have "mset (all_step_pairs global_layers) = mset (available_step_pairs build_parts)"
    using mset_of_part_sequences[OF assms(2) _ k] s by (simp add: steps_of_part_in_def)
  then show ?thesis using r s by blast
qed

theorem populateSteps_complete_and_ordered_witness:
  "kLayerOrdering (settings_of kByHeight 0) \<in> {kByHeight, kByLayerNumber, kByPart}
   \<and> distinct (map getId [part_A, part_B])
   \<and> 0 \<le> kLayerGroupingTolerance (settings_of kByHeight 0)
   \<and> populateSteps False (settings_of kByHeight 0) [part_A, part_B] =
        Some (Inr [\<lparr>layer_index = 0, getStepPairs = [(1, step_at 0), (2, step_at 0)]\<rparr>,
                   \<lparr>layer_index = 1, getStepPairs = [(1, step_at 1)]\<rparr>,
                   \<lparr>layer_index = 2, getStepPairs = [(1, step_at 2), (2, step_at 2)]\<rparr>])
   \<and> available_step_pairs [part_A, part_B] =
        [(1, step_at 0), (1, step_at 1), (1, step_at 2), (2, step_at 0), (2, step_at 2)]
   \<and> (\<exists>global_layers.
         populateSteps False (settings_of kByHeight 0) [part_A, part_B] = Some (Inr global_layers)
       \<and> mset (all_step_pairs global_layers) = mset (available_step_pairs [part_A, part_B])
       \<and> steps_of_part_in (getId part_A) global_layers = [step_at 0, step_at 1, step_at 2]
       \<and> steps_of_part_in (getId part_B) global_layers = [step_at 0, step_at 2])"
proof -
  have h1: "kLayerOrdering (settings_of kByHeight 0) \<in> {kByHeight, kByLayerNumber, kByPart}"
    and h3: "0 \<le> kLayerGroupingTolerance (settings_of kByHeight 0)"
    by (simp_all add: settings_of_def)
  have h2: "distinct (map getId [part_A, part_B])"
    by (simp add: part_A_def part_B_def)
  have v: "populateSteps False (settings_of kByHeight 0) [part_A, part_B] =
        Some (Inr [\<lparr>layer_index = 0, getStepPairs = [(1, step_at 0), (2, step_at 0)]\<rparr>,
                   \<lparr>layer_index = 1, getStepPairs = [(1, step_at 1)]\<rparr>,
                   \<lparr>layer_index = 2, getStepPairs = [(1, step_at 2), (2, step_at 2)]\<rparr>])"
    by code_simp
  have a: "available_step_pairs [part_A, part_B] =
        [(1, step_at 0), (1, step_at 1), (1, step_at 2), (2, step_at 0), (2, step_at 2)]"
    by code_simp
  have sa: "map (getStepPair part_A) [0..<countStepPairs part_A] = [step_at 0, step_at 1, step_at 2]"
    and sb: "map (getStepPair part_B) [0..<countStepPairs part_B] = [step_at 0, step_at 2]"
    by code_simp+
  from populateSteps_complete_and_ordered[OF h1 h2, of False] h3
  have "\<exists>global_layers.
         populateSteps False (settings_of kByHeight 0) [part_A, part_B] = Some (Inr global_layers)
       \<and> mset (all_step_pairs global_layers) = mset (available_step_pairs [part_A, part_B])
       \<and> steps_of_part_in (getId part_A) global_layers = [step_at 0, step_at 1, step_at 2]
       \<and> steps_of_part_in (getId part_B) global_layers = [step_at 0, step_at 2]"
    unfolding sa[symmetric] sb[symmetric] by auto
  then show ?thesis using h1 h2 h3 v a by blast
qed

end
